theory Spec2Isabelle
  imports Complex_Main
begin

section \<open>Values exchanged with the cloud\<close>

text \<open>
  \<open>StreamType\<close> is a string enum. Its members are the keys of the table
  \<open>StreamDataTypes\<close> of the event manager; the strings they stand for are declared in a
  module that is not part of the sources, so a member is kept symbolic. \<open>ALL\<close> is reserved
  in HOL and is written \<open>ALL_STREAMS\<close>.
\<close>

datatype stream_type =
    BUTTON_PRESS | HEAD_POSITION | PHONE_NOTIFICATION | TRANSCRIPTION | TRANSLATION
  | GLASSES_BATTERY_UPDATE | PHONE_BATTERY_UPDATE | GLASSES_CONNECTION_STATE
  | LOCATION_UPDATE | CALENDAR_EVENT | VAD | NOTIFICATION_DISMISSED | AUDIO_CHUNK
  | VIDEO | OPEN_DASHBOARD | START_APP | STOP_APP | ALL_STREAMS | WILDCARD

text \<open>The members of \<open>TpaToCloudMessageType\<close> that the session writes into a message.\<close>

datatype outbound_type = CONNECTION_INIT | SUBSCRIPTION_UPDATE

text \<open>
  A JavaScript value as \<open>JSON.parse\<close> or an object literal of the session builds it.
  Numbers are the finite ones (rationals), \<open>JEnum\<close> is the string of an enum member,
  \<open>JDate\<close> a \<open>Date\<close> object with its time in milliseconds, and an object is the list of
  its own properties; a property is looked up from the front.
\<close>

datatype enum_member = OutboundMember outbound_type | StreamMember stream_type

datatype jsval =
    JUndefined | JNull | JBool bool | JNum rat | JStr string | JEnum enum_member
  | JDate int | JArr "jsval list" | JObj "(string \<times> jsval) list"

text \<open>\<open>typeof v\<close>.\<close>

fun typeof_js :: "jsval \<Rightarrow> string" where
  "typeof_js JUndefined = ''undefined''"
| "typeof_js JNull = ''object''"
| "typeof_js (JBool b) = ''boolean''"
| "typeof_js (JNum n) = ''number''"
| "typeof_js (JStr s) = ''string''"
| "typeof_js (JEnum m) = ''string''"
| "typeof_js (JDate t) = ''object''"
| "typeof_js (JArr xs) = ''object''"
| "typeof_js (JObj kvs) = ''object''"

text \<open>
  Truthiness, as \<open>!v\<close> and \<open>a || b\<close> read it: \<open>undefined\<close>, \<open>null\<close>, \<open>false\<close>, \<open>0\<close>
  and the empty string are falsy. The string of an enum member is not empty.
\<close>

fun truthy :: "jsval \<Rightarrow> bool" where
  "truthy JUndefined = False"
| "truthy JNull = False"
| "truthy (JBool b) = b"
| "truthy (JNum n) = (n \<noteq> 0)"
| "truthy (JStr s) = (s \<noteq> [])"
| "truthy (JEnum m) = True"
| "truthy (JDate t) = True"
| "truthy (JArr xs) = True"
| "truthy (JObj kvs) = True"

text \<open>
  The property read \<open>v.name\<close>: a \<open>TypeError\<close> on \<open>null\<close> and \<open>undefined\<close>, the
  property's value on an object that has it, \<open>undefined\<close> otherwise. The names this
  program reads (\<open>text\<close>, \<open>position\<close>, \<open>buttonId\<close>, \<open>pressType\<close>, \<open>timestamp\<close>) are
  not properties of a primitive, an array or a date.
\<close>

fun get_prop :: "jsval \<Rightarrow> string \<Rightarrow> string + jsval" where
  "get_prop JUndefined name = Inl ''TypeError''"
| "get_prop JNull name = Inl ''TypeError''"
| "get_prop (JObj kvs) name = Inr (case map_of kvs name of None \<Rightarrow> JUndefined | Some v \<Rightarrow> v)"
| "get_prop v name = Inr JUndefined"

text \<open>The optional chain \<open>v?.name\<close>: \<open>undefined\<close> where \<open>v\<close> is \<open>null\<close> or \<open>undefined\<close>.\<close>

definition get_prop_opt :: "jsval \<Rightarrow> string \<Rightarrow> string + jsval" where
  "get_prop_opt v name = (if v = JNull \<or> v = JUndefined then Inr JUndefined else get_prop v name)"

text \<open>\<open>name in v\<close>, for a \<open>v\<close> whose \<open>typeof\<close> is \<open>object\<close> and that is not \<open>null\<close>.\<close>

fun has_property :: "jsval \<Rightarrow> string \<Rightarrow> bool" where
  "has_property (JObj kvs) name = (name \<in> set (map fst kvs))"
| "has_property v name = False"

text \<open>The assignment \<open>v.name = x\<close> on an object.\<close>

fun assign :: "(string \<times> jsval) list \<Rightarrow> string \<Rightarrow> jsval \<Rightarrow> (string \<times> jsval) list" where
  "assign [] name x = [(name, x)]"
| "assign ((k, v) # kvs) name x = (if k = name then (k, x) # kvs else (k, v) # assign kvs name x)"

fun set_prop :: "jsval \<Rightarrow> string \<Rightarrow> jsval \<Rightarrow> jsval" where
  "set_prop (JObj kvs) name x = JObj (assign kvs name x)"
| "set_prop v name x = v"

text \<open>\<open>v instanceof Date\<close>.\<close>

fun is_date :: "jsval \<Rightarrow> bool" where
  "is_date (JDate t) = True"
| "is_date v = False"

section \<open>Sanitizing the payload of a data stream\<close>

text \<open>
  \<open>TpaSession.sanitizeEventData\<close>. \<open>sanitize_checks\<close> is the body of its \<open>try\<close> (\<open>Inl\<close>
  is a thrown exception), \<open>sanitizeEventData\<close> adds the \<open>catch\<close>, which returns the empty
  object. \<open>now\<close> is the clock (\<open>Date.now()\<close> and \<open>new Date()\<close>); the two readings of one
  call are taken to be equal.
\<close>

definition sanitize_checks :: "int \<Rightarrow> stream_type \<Rightarrow> jsval \<Rightarrow> string + jsval" where
  "sanitize_checks now streamType d =
     (if d = JNull \<or> d = JUndefined then Inr (JObj [])
      else if streamType = TRANSCRIPTION then
        (case get_prop d ''text'' of
           Inl e \<Rightarrow> Inl e
         | Inr t \<Rightarrow>
             if typeof_js t \<noteq> ''string''
             then Inr (JObj [(''text'', JStr ''''), (''isFinal'', JBool True),
                             (''startTime'', JNum (of_int now)), (''endTime'', JNum (of_int now))])
             else Inr d)
      else if streamType = HEAD_POSITION then
        (case get_prop_opt d ''position'' of
           Inl e \<Rightarrow> Inl e
         | Inr p \<Rightarrow>
             if typeof_js p \<noteq> ''string''
             then Inr (JObj [(''position'', JStr ''up''), (''timestamp'', JDate now)])
             else Inr d)
      else if streamType = BUTTON_PRESS then
        (case get_prop d ''buttonId'' of
           Inl e \<Rightarrow> Inl e
         | Inr b \<Rightarrow>
             if \<not> truthy b
             then Inr (JObj [(''buttonId'', JStr ''unknown''), (''pressType'', JStr ''short''),
                             (''timestamp'', JDate now)])
             else (case get_prop d ''pressType'' of
                     Inl e \<Rightarrow> Inl e
                   | Inr p \<Rightarrow>
                       if \<not> truthy p
                       then Inr (JObj [(''buttonId'', JStr ''unknown''), (''pressType'', JStr ''short''),
                                       (''timestamp'', JDate now)])
                       else Inr d))
      else Inr d)"

definition sanitizeEventData :: "int \<Rightarrow> stream_type \<Rightarrow> jsval \<Rightarrow> jsval" where
  "sanitizeEventData now streamType d =
     (case sanitize_checks now streamType d of Inl e \<Rightarrow> JObj [] | Inr v \<Rightarrow> v)"

text \<open>
  The minimum shape of a payload: \<open>has_string_field v name\<close> says that \<open>v.name\<close> is a
  string, \<open>has_property v name\<close> that \<open>v\<close> has the property at all.
\<close>

definition has_string_field :: "jsval \<Rightarrow> string \<Rightarrow> bool" where
  "has_string_field v name =
     (case get_prop v name of Inl e \<Rightarrow> False | Inr t \<Rightarrow> typeof_js t = ''string'')"

text \<open>\<open>v.name\<close> is truthy.\<close>

definition truthy_field :: "jsval \<Rightarrow> string \<Rightarrow> bool" where
  "truthy_field v name = (case get_prop v name of Inl e \<Rightarrow> False | Inr x \<Rightarrow> truthy x)"

section \<open>The event manager\<close>

text \<open>
  An event is a stream type or one of the four system events \<open>connected\<close>,
  \<open>disconnected\<close>, \<open>error\<close> and \<open>settings_update\<close> (\<open>EventType\<close>).
\<close>

datatype event_type = Stream stream_type | Connected | Disconnected | Error | SettingsUpdate

text \<open>The members of \<open>CloudToTpaMessageType\<close> and every other \<open>type\<close> of an inbound message.\<close>

datatype cloud_type =
    CONNECTION_ACK | CONNECTION_ERROR | APP_STOPPED | SETTINGS_UPDATE | DATA_STREAM
  | StreamTyped stream_type | OtherType string

text \<open>
  Modelled from the spec: the declarations of \<open>AppSetting\<close>, \<open>AppSettings\<close> and
  \<open>TpaConfig\<close> are in a module that is not part of the sources. A setting has the fields
  the session and the event manager read: its key, its value and its default value. A
  value is a boolean, a number or a string, or is missing (\<open>undefined\<close>); values are
  compared by \<open>!==\<close>.
\<close>

datatype setting_value = VUndefined | VBool bool | VNum rat | VStr string

record app_setting =
  key :: string
  setting_val :: setting_value
  defaultValue :: setting_value

text \<open>
  An entry of a configuration's \<open>settings\<close>: a setting, or a group heading (an entry
  whose \<open>type\<close> is \<open>group\<close>, with its title).
\<close>

datatype config_item = SettingItem app_setting | GroupItem string

record tpa_config =
  config_settings :: "config_item list"

text \<open>An inbound message, with the fields the session reads; an optional field may be absent.\<close>

record cloud_message =
  msg_type :: cloud_type
  msg_settings :: "app_setting list option"
  msg_config :: "tpa_config option"
  msg_message :: "string option"
  msg_streamType :: "stream_type option"
  msg_data :: jsval
  msg_reason :: "string option"

text \<open>
  The text of an error message, and what an event carries. A template string that prints
  an enum member keeps the member symbolic, and so does the text that \<open>inspect\<close> gives for
  a value. An event carries the settings, \<open>undefined\<close>, a string, an \<open>Error\<close> with its
  message, the payload of a data stream, an inbound message itself (a typed audio chunk),
  or the audio chunk built for a binary frame (byte length, sample rate, timestamp).
\<close>

datatype part = Txt string | StreamName stream_type | TypeName cloud_type | Inspected payload
and payload =
    PSettings "app_setting list" | PUndefined | PString string | PError "part list"
  | PData jsval | PMessage cloud_message | PAudio nat int int

text \<open>
  A handler is application code. The model keeps what the manager can see of a call:
  whether it returns or throws, and the message of what it throws. A handler that calls
  back into the session is outside the model.
\<close>

datatype outcome = Returns | Throws "part list"

type_synonym handler = "payload \<Rightarrow> outcome"

text \<open>
  A listener of the \<open>EventEmitter\<close>: a function with its identity, or the closure
  \<open>settingsHandler\<close> that \<open>onSettingChange\<close> creates, with the identity of the closure (and
  of its variable \<open>previousValue\<close>), the key and the callback.
\<close>

datatype listener =
    Listener nat handler
  | SettingsHandler nat string "setting_value \<Rightarrow> setting_value \<Rightarrow> outcome"

fun listener_id :: "listener \<Rightarrow> nat" where
  "listener_id (Listener i f) = i"
| "listener_id (SettingsHandler c k h) = c"

text \<open>
  The calls the manager makes, in order: \<open>Fired\<close> is a call of \<open>emitter.emit\<close>,
  \<open>Called\<close> a call of a listener of the emitter, \<open>Invoked\<close> a call of a handler of
  \<open>this.handlers\<close>, \<open>Changed\<close> a call of the callback of \<open>onSettingChange\<close> with the new
  and the previous value, \<open>Subscribed\<close> a call of the \<open>subscribe\<close> callback.
\<close>

datatype call =
    Fired event_type payload | Called nat payload | Invoked nat payload
  | Changed nat setting_value setting_value | Subscribed stream_type

text \<open>
  \<open>EventManager\<close>: the listeners of \<open>this.emitter\<close> in the order of their registration,
  the map \<open>this.handlers\<close> (a set of handlers is the list of its members in insertion
  order), the variables \<open>previousValue\<close> of the closures, and the calls made so far.
\<close>

record event_manager =
  emitter :: "(event_type \<times> listener) list"
  handlers :: "event_type \<Rightarrow> (nat \<times> handler) list option"
  previousValue :: "nat \<Rightarrow> setting_value"
  trace :: "call list"

definition new_EventManager :: event_manager where
  "new_EventManager =
     \<lparr>emitter = [], handlers = (\<lambda>ev. None), previousValue = (\<lambda>c. VUndefined), trace = []\<rparr>"

definition logged :: "call \<Rightarrow> event_manager \<Rightarrow> event_manager" where
  "logged c em = em\<lparr>trace := trace em @ [c]\<rparr>"

subsection \<open>The EventEmitter\<close>

text \<open>
  \<open>emitter.on\<close> appends a listener; \<open>emitter.off\<close> removes the instance of the
  listener that was added last.
\<close>

definition emitter_on :: "event_type \<Rightarrow> listener \<Rightarrow> event_manager \<Rightarrow> event_manager" where
  "emitter_on ev l em = em\<lparr>emitter := emitter em @ [(ev, l)]\<rparr>"

fun remove_first :: "('a \<Rightarrow> bool) \<Rightarrow> 'a list \<Rightarrow> 'a list" where
  "remove_first P [] = []"
| "remove_first P (x # xs) = (if P x then xs else x # remove_first P xs)"

definition emitter_off :: "event_type \<Rightarrow> nat \<Rightarrow> event_manager \<Rightarrow> event_manager" where
  "emitter_off ev i em =
     em\<lparr>emitter := rev (remove_first (\<lambda>(e, l). e = ev \<and> listener_id l = i) (rev (emitter em)))\<rparr>"

definition listeners_of :: "event_type \<Rightarrow> event_manager \<Rightarrow> listener list" where
  "listeners_of ev em = map snd (filter (\<lambda>(e, l). e = ev) (emitter em))"

text \<open>
  The closure \<open>settingsHandler\<close> of \<open>onSettingChange\<close>, as a function of the value of
  \<open>previousValue\<close>: the new value of the variable and the calls of the callback (none or
  one, each with the new and the previous value). A payload that is not a settings array
  makes \<open>settings.find\<close> throw, which the \<open>catch\<close> of the closure swallows, as it does
  what the callback throws.
\<close>

definition settingsHandler ::
  "string \<Rightarrow> (setting_value \<Rightarrow> setting_value \<Rightarrow> outcome) \<Rightarrow> payload \<Rightarrow> setting_value
     \<Rightarrow> setting_value \<times> (setting_value \<times> setting_value) list" where
  "settingsHandler k h p prev =
     (case p of
        PSettings settings \<Rightarrow>
          (case find (\<lambda>s. key s = k) settings of
             None \<Rightarrow> (prev, [])
           | Some setting \<Rightarrow>
               if setting_val setting \<noteq> prev
               then (case h (setting_val setting) prev of
                       Returns \<Rightarrow> (setting_val setting, [(setting_val setting, prev)])
                     | Throws e \<Rightarrow> (prev, [(setting_val setting, prev)]))
               else (prev, []))
      | _ \<Rightarrow> (prev, []))"

text \<open>One listener called with a payload: what it throws, if it throws, and the manager after.\<close>

fun run_listener :: "listener \<Rightarrow> payload \<Rightarrow> event_manager \<Rightarrow> part list option \<times> event_manager" where
  "run_listener (Listener i f) p em =
     (case f p of
        Returns \<Rightarrow> (None, logged (Called i p) em)
      | Throws e \<Rightarrow> (Some e, logged (Called i p) em))"
| "run_listener (SettingsHandler c k h) p em =
     (case settingsHandler k h p (previousValue em c) of
        (prev', calls) \<Rightarrow>
          (None, em\<lparr>previousValue := (previousValue em)(c := prev'),
                     trace := trace em @ map (\<lambda>(v, pv). Changed c v pv) calls\<rparr>))"

text \<open>The listeners of one event are called in order; the first that throws ends the call.\<close>

fun run_listeners :: "listener list \<Rightarrow> payload \<Rightarrow> event_manager \<Rightarrow> part list option \<times> event_manager" where
  "run_listeners [] p em = (None, em)"
| "run_listeners (l # ls) p em =
     (case run_listener l p em of
        (Some e, em') \<Rightarrow> (Some e, em')
      | (None, em') \<Rightarrow> run_listeners ls p em')"

text \<open>
  The message of what an unhandled \<open>error\<close> event throws: that of the error emitted, or
  of the error the emitter makes of a payload that is no \<open>Error\<close>, which names the
  payload as \<open>inspect\<close> prints it.
\<close>

fun unhandled :: "payload \<Rightarrow> part list" where
  "unhandled (PError e) = e"
| "unhandled p = [Txt ''Unhandled error. ('', Inspected p, Txt '')'']"

text \<open>
  \<open>emitter.emit(ev, p)\<close>. The \<open>EventEmitter\<close> is the one of \<open>node:events\<close>, modelled as
  its documentation has it: the listeners of \<open>ev\<close> run in the order of their registration,
  an exception of one of them leaves \<open>emit\<close>, and an \<open>error\<close> event that has no listener
  is thrown.
\<close>

definition emitter_emit :: "event_type \<Rightarrow> payload \<Rightarrow> event_manager \<Rightarrow> part list option \<times> event_manager" where
  "emitter_emit ev p em =
     (case listeners_of ev em of
        [] \<Rightarrow> (if ev = Error then (Some (unhandled p), logged (Fired ev p) em)
               else (None, logged (Fired ev p) em))
      | l # ls \<Rightarrow> run_listeners (l # ls) p (logged (Fired ev p) em))"

subsection \<open>emit\<close>

fun String_event :: "event_type \<Rightarrow> part list" where
  "String_event (Stream t) = [StreamName t]"
| "String_event Connected = [Txt ''connected'']"
| "String_event Disconnected = [Txt ''disconnected'']"
| "String_event Error = [Txt ''error'']"
| "String_event SettingsUpdate = [Txt ''settings_update'']"

definition apostrophe :: string where
  "apostrophe = [CHR 0x27]"

definition handler_error :: "event_type \<Rightarrow> part list \<Rightarrow> part list" where
  "handler_error ev e =
     [Txt (''Handler error for event '' @ apostrophe)] @ String_event ev
       @ [Txt (apostrophe @ '': '')] @ e"

definition emission_error :: "event_type \<Rightarrow> part list \<Rightarrow> part list" where
  "emission_error ev e =
     [Txt (''Event emission error for '' @ apostrophe)] @ String_event ev
       @ [Txt (apostrophe @ '': '')] @ e"

text \<open>
  The loop over the handlers of \<open>ev\<close>: each call has its own \<open>try\<close>; what a handler
  throws is reported by \<open>emitter.emit('error', ...)\<close> unless \<open>ev\<close> is \<open>error\<close>, and an
  exception of that report is not caught inside the loop.
\<close>

fun run_handlers ::
  "event_type \<Rightarrow> (nat \<times> handler) list \<Rightarrow> payload \<Rightarrow> event_manager \<Rightarrow> part list option \<times> event_manager" where
  "run_handlers ev [] p em = (None, em)"
| "run_handlers ev ((i, h) # hs) p em =
     (case h p of
        Returns \<Rightarrow> run_handlers ev hs p (logged (Invoked i p) em)
      | Throws e \<Rightarrow>
          if ev \<noteq> Error
          then (case emitter_emit Error (PError (handler_error ev e)) (logged (Invoked i p) em) of
                  (Some e', em') \<Rightarrow> (Some e', em')
                | (None, em') \<Rightarrow> run_handlers ev hs p em')
          else run_handlers ev hs p (logged (Invoked i p) em))"

text \<open>The outer \<open>try\<close> of \<open>emit\<close>.\<close>

definition emit_try :: "event_type \<Rightarrow> payload \<Rightarrow> event_manager \<Rightarrow> part list option \<times> event_manager" where
  "emit_try ev p em =
     (case emitter_emit ev p em of
        (Some e, em') \<Rightarrow> (Some e, em')
      | (None, em') \<Rightarrow>
          (case handlers em' ev of
             None \<Rightarrow> (None, em')
           | Some hs \<Rightarrow> run_handlers ev hs p em'))"

text \<open>
  \<open>EventManager.emit\<close>: the outer \<open>catch\<close> reports the exception by one more
  \<open>emitter.emit('error', ...)\<close> unless \<open>ev\<close> is \<open>error\<close>, and swallows what that throws.
  Nothing leaves \<open>emit\<close>.
\<close>

definition emit :: "event_type \<Rightarrow> payload \<Rightarrow> event_manager \<Rightarrow> event_manager" where
  "emit ev p em =
     (case emit_try ev p em of
        (None, em') \<Rightarrow> em'
      | (Some e, em') \<Rightarrow>
          if ev \<noteq> Error then snd (emitter_emit Error (PError (emission_error ev e)) em') else em')"

subsection \<open>Registering handlers\<close>

text \<open>
  \<open>addHandler\<close>. \<open>subscribe\<close> is the callback given to the constructor; it acts on the
  state \<open>w\<close> of its owner and may throw, which leaves \<open>addHandler\<close> before the handler is
  added. A handler that is a member of the set already is not added again.
\<close>

definition add_member :: "nat \<times> handler \<Rightarrow> (nat \<times> handler) list \<Rightarrow> (nat \<times> handler) list" where
  "add_member h hs = (if fst h \<in> set (map fst hs) then hs else hs @ [h])"

definition addHandler ::
  "(stream_type \<Rightarrow> 'w \<Rightarrow> (part list + unit) \<times> 'w) \<Rightarrow> stream_type \<Rightarrow> nat \<times> handler
     \<Rightarrow> event_manager \<times> 'w \<Rightarrow> (part list + unit) \<times> event_manager \<times> 'w" where
  "addHandler subscribe t h state =
     (case state of (em, w) \<Rightarrow>
        (let hs = (case handlers em (Stream t) of None \<Rightarrow> [] | Some hs \<Rightarrow> hs) in
         if length hs = 0
         then (let em1 = logged (Subscribed t) (em\<lparr>handlers := (handlers em)(Stream t \<mapsto> hs)\<rparr>) in
               case subscribe t w of
                 (Inl e, w') \<Rightarrow> (Inl e, em1, w')
               | (Inr u, w') \<Rightarrow>
                   (Inr (), em1\<lparr>handlers := (handlers em1)(Stream t \<mapsto> add_member h hs)\<rparr>, w'))
         else (Inr (), em\<lparr>handlers := (handlers em)(Stream t \<mapsto> add_member h hs)\<rparr>, w)))"

text \<open>\<open>removeHandler\<close>: the entry of the map is deleted with its last handler.\<close>

definition removeHandler :: "stream_type \<Rightarrow> nat \<Rightarrow> event_manager \<Rightarrow> event_manager" where
  "removeHandler t i em =
     (case handlers em (Stream t) of
        None \<Rightarrow> em
      | Some hs \<Rightarrow>
          (let hs' = filter (\<lambda>h. fst h \<noteq> i) hs in
           if length hs' = 0 then em\<lparr>handlers := (handlers em)(Stream t := None)\<rparr>
           else em\<lparr>handlers := (handlers em)(Stream t \<mapsto> hs')\<rparr>))"

text \<open>The listeners of the system events, and \<open>onSettingChange\<close>.\<close>

definition onConnected :: "nat \<Rightarrow> handler \<Rightarrow> event_manager \<Rightarrow> event_manager" where
  "onConnected i f em = emitter_on Connected (Listener i f) em"

definition onDisconnected :: "nat \<Rightarrow> handler \<Rightarrow> event_manager \<Rightarrow> event_manager" where
  "onDisconnected i f em = emitter_on Disconnected (Listener i f) em"

definition onError :: "nat \<Rightarrow> handler \<Rightarrow> event_manager \<Rightarrow> event_manager" where
  "onError i f em = emitter_on Error (Listener i f) em"

definition onSettingsUpdate :: "nat \<Rightarrow> handler \<Rightarrow> event_manager \<Rightarrow> event_manager" where
  "onSettingsUpdate i f em = emitter_on SettingsUpdate (Listener i f) em"

definition onSettingChange ::
  "nat \<Rightarrow> string \<Rightarrow> (setting_value \<Rightarrow> setting_value \<Rightarrow> outcome) \<Rightarrow> event_manager \<Rightarrow> event_manager" where
  "onSettingChange c k h em =
     emitter_on Connected (SettingsHandler c k h)
       (emitter_on SettingsUpdate (SettingsHandler c k h)
          (em\<lparr>previousValue := (previousValue em)(c := VUndefined)\<rparr>))"

section \<open>The session\<close>

text \<open>
  An optional property of an object: the object lacks it, has it with the value
  \<open>undefined\<close>, or has it with a value. Reading it gives \<open>undefined\<close> (\<open>None\<close>) in the
  first two cases.
\<close>

datatype 'a property = Omitted | GivenUndefined | Given 'a

fun given :: "'a property \<Rightarrow> 'a option" where
  "given Omitted = None"
| "given GivenUndefined = None"
| "given (Given x) = Some x"

text \<open>\<open>TpaSessionConfig\<close>, with its four optional properties.\<close>

record tpa_session_config =
  packageName :: string
  apiKey :: string
  augmentOSWebsocketUrl :: "string property"
  autoReconnect :: "bool property"
  maxReconnectAttempts :: "int property"
  reconnectDelay :: "int property"

text \<open>
  The channel: its \<open>readyState\<close>, the messages given to \<open>JSON.stringify\<close> and \<open>ws.send\<close>
  so far, and the message of the exception that \<open>ws.send\<close> throws, if the transport
  refuses a message. A session that closes its channel drops the handle.
\<close>

record websocket =
  readyState :: nat
  sent :: "jsval list"
  send_failure :: "string option"

text \<open>
  The fields of \<open>TpaSession\<close>. The subscription set is the list of its members in
  insertion order. \<open>emitted\<close> lists the calls of \<open>this.events.emit\<close> in order; what the
  event manager does with each is \<open>emit\<close> above, which returns whatever its handlers do.
  The subscription handler is application code and may throw (\<open>Inl\<close>).
\<close>

record tpa_session =
  config :: tpa_session_config
  ws :: "websocket option"
  sessionId :: "string option"
  reconnectAttempts :: nat
  subscriptions :: "stream_type list"
  settings :: "app_setting list"
  tpaConfig :: "tpa_config option"
  shouldUpdateSubscriptionsOnSettingsChange :: bool
  subscriptionSettingsHandler :: "(app_setting list \<Rightarrow> part list + stream_type list) option"
  subscriptionUpdateTriggers :: "string list"
  emitted :: "(event_type \<times> payload) list"

text \<open>
  The constructor: the object \<open>{...defaults, ...config}\<close>. A property that the caller's
  object has overrides the default, also where its value is \<open>undefined\<close>.
\<close>

fun spread_over :: "'a \<Rightarrow> 'a property \<Rightarrow> 'a property" where
  "spread_over d Omitted = Given d"
| "spread_over d GivenUndefined = GivenUndefined"
| "spread_over d (Given x) = Given x"

definition with_defaults :: "tpa_session_config \<Rightarrow> tpa_session_config" where
  "with_defaults c =
     c\<lparr>augmentOSWebsocketUrl := spread_over ''ws://dev.augmentos.org/tpa-ws'' (augmentOSWebsocketUrl c),
       autoReconnect := spread_over False (autoReconnect c),
       maxReconnectAttempts := spread_over 0 (maxReconnectAttempts c),
       reconnectDelay := spread_over 1000 (reconnectDelay c)\<rparr>"

definition new_TpaSession :: "tpa_session_config \<Rightarrow> tpa_session" where
  "new_TpaSession c =
     \<lparr>config = with_defaults c, ws = None, sessionId = None, reconnectAttempts = 0,
      subscriptions = [], settings = [], tpaConfig = None,
      shouldUpdateSubscriptionsOnSettingsChange = False, subscriptionSettingsHandler = None,
      subscriptionUpdateTriggers = [], emitted = []\<rparr>"

definition events_emit :: "event_type \<Rightarrow> payload \<Rightarrow> tpa_session \<Rightarrow> tpa_session" where
  "events_emit ev p s = s\<lparr>emitted := emitted s @ [(ev, p)]\<rparr>"

text \<open>The event manager after the calls of \<open>this.events.emit\<close> that a session made.\<close>

definition deliver :: "(event_type \<times> payload) list \<Rightarrow> event_manager \<Rightarrow> event_manager" where
  "deliver evs em = fold (\<lambda>(ev, p). emit ev p) evs em"

subsection \<open>send\<close>

definition stateName :: "nat \<Rightarrow> string" where
  "stateName n =
     (if n = 0 then ''CONNECTING'' else if n = 1 then ''OPEN'' else if n = 2 then ''CLOSING''
      else if n = 3 then ''CLOSED'' else ''UNKNOWN'')"

text \<open>
  The body of the \<open>try\<close> of \<open>send\<close>: the checks in their order, the timestamp, and
  \<open>ws.send\<close>. \<open>Inl\<close> is the message of the \<open>Error\<close> thrown.
\<close>

definition send_try :: "int \<Rightarrow> jsval \<Rightarrow> tpa_session \<Rightarrow> (part list + unit) \<times> tpa_session" where
  "send_try now message s =
     (case ws s of
        None \<Rightarrow> (Inl [Txt ''WebSocket connection not established''], s)
      | Some w \<Rightarrow>
          if readyState w \<noteq> 1
          then (Inl [Txt (''WebSocket not connected (current state: '' @ stateName (readyState w) @ '')'')], s)
          else if \<not> truthy message \<or> typeof_js message \<noteq> ''object''
          then (Inl [Txt ''Invalid message: must be an object''], s)
          else if \<not> has_property message ''type''
          then (Inl [Txt (''Invalid message: missing '' @ [CHR 0x22] @ ''type'' @ [CHR 0x22] @ '' property'')], s)
          else
            (let stamped =
                   (if \<not> has_property message ''timestamp''
                       \<or> \<not> (case get_prop message ''timestamp'' of Inl e \<Rightarrow> False | Inr t \<Rightarrow> is_date t)
                    then set_prop message ''timestamp'' (JDate now) else message)
             in case send_failure w of
                  Some err \<Rightarrow> (Inl [Txt (''Failed to send message: '' @ err)], s)
                | None \<Rightarrow> (Inr (), s\<lparr>ws := Some (w\<lparr>sent := sent w @ [stamped]\<rparr>)\<rparr>)))"

text \<open>
  \<open>TpaSession.send\<close>: the \<open>catch\<close> emits the \<open>error\<close> event and throws the error again.
\<close>

definition send :: "int \<Rightarrow> jsval \<Rightarrow> tpa_session \<Rightarrow> (part list + unit) \<times> tpa_session" where
  "send now message s =
     (case send_try now message s of
        (Inl e, s') \<Rightarrow> (Inl e, events_emit Error (PError e) s')
      | (Inr u, s') \<Rightarrow> (Inr (), s'))"

subsection \<open>Subscriptions\<close>

definition subscription_update :: "int \<Rightarrow> tpa_session \<Rightarrow> jsval" where
  "subscription_update now s =
     JObj [(''type'', JEnum (OutboundMember SUBSCRIPTION_UPDATE)),
           (''packageName'', JStr (packageName (config s))),
           (''subscriptions'', JArr (map (\<lambda>t. JEnum (StreamMember t)) (subscriptions s))),
           (''sessionId'', (case sessionId s of None \<Rightarrow> JNull | Some i \<Rightarrow> JStr i)),
           (''timestamp'', JDate now)]"

definition updateSubscriptions :: "int \<Rightarrow> tpa_session \<Rightarrow> (part list + unit) \<times> tpa_session" where
  "updateSubscriptions now s = send now (subscription_update now s) s"

definition connection_init :: "int \<Rightarrow> tpa_session \<Rightarrow> jsval" where
  "connection_init now s =
     JObj [(''type'', JEnum (OutboundMember CONNECTION_INIT)),
           (''sessionId'', (case sessionId s of None \<Rightarrow> JNull | Some i \<Rightarrow> JStr i)),
           (''packageName'', JStr (packageName (config s))),
           (''apiKey'', JStr (apiKey (config s))),
           (''timestamp'', JDate now)]"

definition sendConnectionInit :: "int \<Rightarrow> tpa_session \<Rightarrow> (part list + unit) \<times> tpa_session" where
  "sendConnectionInit now s = send now (connection_init now s) s"

text \<open>\<open>Set.add\<close> on the list of members.\<close>

definition set_add :: "'a \<Rightarrow> 'a list \<Rightarrow> 'a list" where
  "set_add x xs = (if x \<in> set xs then xs else xs @ [x])"

text \<open>\<open>this.ws?.readyState === 1\<close>, and \<open>this.ws && this.ws.readyState === 1\<close>.\<close>

definition is_open :: "tpa_session \<Rightarrow> bool" where
  "is_open s = (case ws s of None \<Rightarrow> False | Some w \<Rightarrow> readyState w = 1)"

definition subscribe :: "int \<Rightarrow> stream_type \<Rightarrow> tpa_session \<Rightarrow> (part list + unit) \<times> tpa_session" where
  "subscribe now t s =
     (let s1 = s\<lparr>subscriptions := set_add t (subscriptions s)\<rparr> in
      if is_open s1 then updateSubscriptions now s1 else (Inr (), s1))"

text \<open>
  \<open>updateSubscriptionsFromSettings\<close>: the \<open>catch\<close> turns an exception of the handler or
  of the push into an \<open>error\<close> event.
\<close>

definition updateSubscriptionsFromSettings :: "int \<Rightarrow> tpa_session \<Rightarrow> tpa_session" where
  "updateSubscriptionsFromSettings now s =
     (case subscriptionSettingsHandler s of
        None \<Rightarrow> s
      | Some h \<Rightarrow>
          (case (case h (settings s) of
                   Inl e \<Rightarrow> (Inl e, s)
                 | Inr newSubscriptions \<Rightarrow>
                     (let s1 = s\<lparr>subscriptions := fold set_add newSubscriptions []\<rparr> in
                      if is_open s1 then updateSubscriptions now s1 else (Inr (), s1))) of
             (Inl e, s') \<Rightarrow> events_emit Error (PError ([Txt ''Failed to update subscriptions: ''] @ e)) s'
           | (Inr u, s') \<Rightarrow> s'))"

definition setSubscriptionSettings ::
  "int \<Rightarrow> string list \<Rightarrow> (app_setting list \<Rightarrow> part list + stream_type list) \<Rightarrow> tpa_session \<Rightarrow> tpa_session" where
  "setSubscriptionSettings now updateOnChange h s =
     (let s1 = s\<lparr>shouldUpdateSubscriptionsOnSettingsChange := True,
                  subscriptionUpdateTriggers := updateOnChange,
                  subscriptionSettingsHandler := Some h\<rparr> in
      if length (settings s1) > 0 then updateSubscriptionsFromSettings now s1 else s1)"

subsection \<open>Settings and configuration\<close>

definition getSetting :: "string \<Rightarrow> tpa_session \<Rightarrow> setting_value" where
  "getSetting k s =
     (case find (\<lambda>x. key x = k) (settings s) of None \<Rightarrow> VUndefined | Some x \<Rightarrow> setting_val x)"

text \<open>
  \<open>getDefaultSettings\<close>: the entries that are no group heading (the \<open>filter\<close> with its
  type guard), each with its default value as its value.
\<close>

fun without_groups :: "config_item list \<Rightarrow> app_setting list" where
  "without_groups [] = []"
| "without_groups (SettingItem a # xs) = a # without_groups xs"
| "without_groups (GroupItem title # xs) = without_groups xs"

definition with_default_value :: "app_setting \<Rightarrow> app_setting" where
  "with_default_value a = a\<lparr>setting_val := defaultValue a\<rparr>"

definition getDefaultSettings :: "tpa_session \<Rightarrow> part list + app_setting list" where
  "getDefaultSettings s =
     (case tpaConfig s of
        None \<Rightarrow> Inl [Txt ''TPA configuration not loaded. Call loadConfigFromJson first.'']
      | Some c \<Rightarrow> Inr (map with_default_value (without_groups (config_settings c))))"

definition disconnect :: "tpa_session \<Rightarrow> tpa_session" where
  "disconnect s =
     s\<lparr>ws := None, sessionId := None, subscriptions := [], reconnectAttempts := 0\<rparr>"

subsection \<open>Inbound messages\<close>

text \<open>
  What \<open>handleMessage\<close> can be given: a binary \<open>ArrayBuffer\<close> (its byte length), \<open>null\<close>
  or \<open>undefined\<close>, an object that has no \<open>type\<close>, or a message with its \<open>type\<close>.
\<close>

datatype inbound = Binary nat | Absent | Untyped | Message cloud_message

fun validateMessage :: "inbound \<Rightarrow> bool" where
  "validateMessage (Binary n) = True"
| "validateMessage Absent = False"
| "validateMessage Untyped = False"
| "validateMessage (Message m) = True"

definition handleBinaryMessage :: "int \<Rightarrow> nat \<Rightarrow> tpa_session \<Rightarrow> tpa_session" where
  "handleBinaryMessage now byteLength s =
     (if AUDIO_CHUNK \<notin> set (subscriptions s) then s
      else if byteLength = 0
      then events_emit Error (PError [Txt ''Received empty binary message'']) s
      else events_emit (Stream AUDIO_CHUNK) (PAudio byteLength 16000 now) s)"

text \<open>The type guards.\<close>

definition isTpaConnectionAck :: "cloud_message \<Rightarrow> bool" where
  "isTpaConnectionAck m = (msg_type m = CONNECTION_ACK)"

definition isTpaConnectionError :: "cloud_message \<Rightarrow> bool" where
  "isTpaConnectionError m = (msg_type m = CONNECTION_ERROR)"

definition isAppStopped :: "cloud_message \<Rightarrow> bool" where
  "isAppStopped m = (msg_type m = APP_STOPPED)"

definition isSettingsUpdate :: "cloud_message \<Rightarrow> bool" where
  "isSettingsUpdate m = (msg_type m = SETTINGS_UPDATE)"

definition isDataStream :: "cloud_message \<Rightarrow> bool" where
  "isDataStream m = (msg_type m = DATA_STREAM \<or> msg_type m = StreamTyped AUDIO_CHUNK)"

text \<open>\<open>a || b\<close> on an optional string: the empty string is falsy.\<close>

definition or_else :: "string option \<Rightarrow> string \<Rightarrow> string" where
  "or_else a b = (case a of None \<Rightarrow> b | Some x \<Rightarrow> if x = [] then b else x)"

text \<open>
  The branch of a connection acknowledgment. \<open>validateTpaConfig\<close> is declared in a module
  that is not part of the sources and is a parameter. The push of the subscription list
  may throw, which leaves the branch.
\<close>

definition handle_connection_ack ::
  "(tpa_config \<Rightarrow> bool) \<Rightarrow> int \<Rightarrow> cloud_message \<Rightarrow> tpa_session \<Rightarrow> (part list + unit) \<times> tpa_session" where
  "handle_connection_ack validateTpaConfig now m s =
     (let s1 = s\<lparr>settings := (case msg_settings m of None \<Rightarrow> [] | Some x \<Rightarrow> x)\<rparr>;
          s2 = (case msg_config m of
                  None \<Rightarrow> s1
                | Some c \<Rightarrow> if validateTpaConfig c then s1\<lparr>tpaConfig := Some c\<rparr> else s1);
          s3 = (if length (settings s2) = 0 \<and> tpaConfig s2 \<noteq> None
                then (case getDefaultSettings s2 of Inl e \<Rightarrow> s2 | Inr d \<Rightarrow> s2\<lparr>settings := d\<rparr>)
                else s2);
          s4 = events_emit Connected (PSettings (settings s3)) s3
      in case updateSubscriptions now s4 of
           (Inl e, s5) \<Rightarrow> (Inl e, s5)
         | (Inr u, s5) \<Rightarrow>
             (Inr (),
              if shouldUpdateSubscriptionsOnSettingsChange s5 \<and> length (settings s5) > 0
              then updateSubscriptionsFromSettings now s5 else s5))"

text \<open>
  Whether a trigger key counts as changed between the previous and the new settings:
  it has appeared, or it is in both with different values.
\<close>

definition trigger_changed :: "app_setting list \<Rightarrow> app_setting list \<Rightarrow> string \<Rightarrow> bool" where
  "trigger_changed prevSettings newSettings k =
     (case (find (\<lambda>x. key x = k) prevSettings, find (\<lambda>x. key x = k) newSettings) of
        (None, Some newSetting) \<Rightarrow> True
      | (Some oldSetting, Some newSetting) \<Rightarrow> setting_val oldSetting \<noteq> setting_val newSetting
      | _ \<Rightarrow> False)"

definition handle_settings_update :: "int \<Rightarrow> cloud_message \<Rightarrow> tpa_session \<Rightarrow> tpa_session" where
  "handle_settings_update now m s =
     (let prevSettings = settings s;
          s1 = s\<lparr>settings := (case msg_settings m of None \<Rightarrow> [] | Some x \<Rightarrow> x)\<rparr>;
          s2 = events_emit SettingsUpdate (PSettings (settings s1)) s1
      in if shouldUpdateSubscriptionsOnSettingsChange s2
         then (if list_ex (trigger_changed prevSettings (settings s2)) (subscriptionUpdateTriggers s2)
               then updateSubscriptionsFromSettings now s2 else s2)
         else s2)"

text \<open>The chain of type guards, inside the inner \<open>try\<close> of \<open>handleMessage\<close>.\<close>

definition dispatch_message ::
  "(tpa_config \<Rightarrow> bool) \<Rightarrow> int \<Rightarrow> cloud_message \<Rightarrow> tpa_session \<Rightarrow> (part list + unit) \<times> tpa_session" where
  "dispatch_message validateTpaConfig now m s =
     (if isTpaConnectionAck m then handle_connection_ack validateTpaConfig now m s
      else if isTpaConnectionError m
      then (Inr (), events_emit Error (PError [Txt (or_else (msg_message m) ''Unknown connection error'')]) s)
      else if msg_type m = StreamTyped AUDIO_CHUNK
      then (Inr (), if AUDIO_CHUNK \<in> set (subscriptions s)
                    then events_emit (Stream AUDIO_CHUNK) (PMessage m) s else s)
      else if isDataStream m
      then (Inr (), case msg_streamType m of
                      None \<Rightarrow> s
                    | Some t \<Rightarrow>
                        if t \<in> set (subscriptions s)
                        then events_emit (Stream t) (PData (sanitizeEventData now t (msg_data m))) s
                        else s)
      else if isSettingsUpdate m then (Inr (), handle_settings_update now m s)
      else if isAppStopped m
      then (Inr (), events_emit Disconnected (PString (''App stopped: '' @ or_else (msg_reason m) ''unknown'')) s)
      else (Inr (), events_emit Error (PError [Txt ''Unrecognized message type: '', TypeName (msg_type m)]) s))"

text \<open>\<open>handleMessage\<close>: nothing leaves it.\<close>

definition handleMessage :: "(tpa_config \<Rightarrow> bool) \<Rightarrow> int \<Rightarrow> inbound \<Rightarrow> tpa_session \<Rightarrow> tpa_session" where
  "handleMessage validateTpaConfig now message s =
     (if \<not> validateMessage message
      then events_emit Error (PError [Txt ''Invalid message format received'']) s
      else case message of
             Binary n \<Rightarrow> handleBinaryMessage now n s
           | Message m \<Rightarrow>
               (case dispatch_message validateTpaConfig now m s of
                  (Inl e, s') \<Rightarrow> events_emit Error (PError ([Txt ''Error processing message: ''] @ e)) s'
                | (Inr u, s') \<Rightarrow> s')
           | _ \<Rightarrow> s)"

subsection \<open>Connecting and reconnecting\<close>

text \<open>
  \<open>connect\<close>, up to the upgrade request: the session id is stored, a handle that is not
  closed is closed and dropped, and a missing URL rejects. What follows (the request, the
  handshake and the timer of five seconds) is the parameter \<open>network\<close>: it settles the
  promise, \<open>Inl\<close> for a rejection. The argument is what \<open>this.sessionId\<close> holds when
  the call is made.
\<close>

definition connect ::
  "(tpa_session \<Rightarrow> (part list + unit) \<times> tpa_session) \<Rightarrow> string option \<Rightarrow> tpa_session
     \<Rightarrow> (part list + unit) \<times> tpa_session" where
  "connect network sid s =
     (let s1 = s\<lparr>sessionId := sid\<rparr>;
          s2 = (case ws s1 of
                  None \<Rightarrow> s1
                | Some w \<Rightarrow> if readyState w \<noteq> 3 then s1\<lparr>ws := None\<rparr> else s1)
      in if or_else (given (augmentOSWebsocketUrl (config s2))) [] = []
         then (Inl [Txt ''WebSocket URL is required''], s2)
         else network s2)"

text \<open>
  \<open>a || b\<close> on an optional number: \<open>undefined\<close> and \<open>0\<close> are falsy. With it,
  \<open>this.config.maxReconnectAttempts || 5\<close> and \<open>this.config.reconnectDelay || 1000\<close>.
\<close>

definition number_or :: "int option \<Rightarrow> int \<Rightarrow> int" where
  "number_or a b = (case a of None \<Rightarrow> b | Some n \<Rightarrow> if n = 0 then b else n)"

definition maxAttempts :: "tpa_session_config \<Rightarrow> int" where
  "maxAttempts c = number_or (given (maxReconnectAttempts c)) 5"

definition baseDelay :: "tpa_session_config \<Rightarrow> int" where
  "baseDelay c = number_or (given (reconnectDelay c)) 1000"

text \<open>The guard of \<open>handleReconnection\<close>: the routine returns at once where it holds.\<close>

definition reconnect_refused :: "tpa_session \<Rightarrow> bool" where
  "reconnect_refused s =
     (given (autoReconnect (config s)) \<noteq> Some True
      \<or> or_else (sessionId s) [] = []
      \<or> int (reconnectAttempts s) \<ge> maxAttempts (config s))"

text \<open>
  \<open>handleReconnection\<close> up to its timer: nothing where the guard holds, else the delay of
  the timer and the session while the timer runs.
\<close>

definition reconnect_start :: "tpa_session \<Rightarrow> (int \<times> tpa_session) option" where
  "reconnect_start s =
     (if reconnect_refused s then None
      else Some (baseDelay (config s) * 2 ^ reconnectAttempts s,
                 s\<lparr>reconnectAttempts := reconnectAttempts s + 1\<rparr>))"

text \<open>\<open>handleReconnection\<close> after its timer: the call of \<open>connect\<close> and what follows it.\<close>

definition reconnect_resume ::
  "(tpa_session \<Rightarrow> (part list + unit) \<times> tpa_session) \<Rightarrow> tpa_session \<Rightarrow> tpa_session" where
  "reconnect_resume network s =
     (case connect network (sessionId s) s of
        (Inr u, s') \<Rightarrow> s'\<lparr>reconnectAttempts := 0\<rparr>
      | (Inl e, s') \<Rightarrow> events_emit Error (PError [Txt ''Reconnection failed'']) s')"

text \<open>
  \<open>handleReconnection\<close>, with nothing else running during its timer: the delay it waited,
  if it did, and the session after.
\<close>

definition handleReconnection ::
  "(tpa_session \<Rightarrow> (part list + unit) \<times> tpa_session) \<Rightarrow> tpa_session \<Rightarrow> int option \<times> tpa_session" where
  "handleReconnection network s =
     (case reconnect_start s of
        None \<Rightarrow> (None, s)
      | Some (delay, s1) \<Rightarrow> (Some delay, reconnect_resume network s1))"

text \<open>The channel closes \<open>n\<close> times in a row: the delays of the calls of \<open>handleReconnection\<close>.\<close>

fun closes ::
  "(tpa_session \<Rightarrow> (part list + unit) \<times> tpa_session) \<Rightarrow> nat \<Rightarrow> tpa_session \<Rightarrow> int option list \<times> tpa_session" where
  "closes network 0 s = ([], s)"
| "closes network (Suc n) s =
     (case handleReconnection network s of
        (d, s1) \<Rightarrow> (case closes network n s1 of (ds, s2) \<Rightarrow> (d # ds, s2)))"

subsection \<open>getSettings and the store\<close>

text \<open>
  \<open>getSettings\<close> has no assignment to a field: it returns \<open>[...this.settings]\<close> and
  the session as it was.
\<close>

definition getSettings :: "tpa_session \<Rightarrow> app_setting list \<times> tpa_session" where
  "getSettings s = (settings s, s)"

text \<open>
  Whether a caller can reach the session's own array through the result is a matter of
  aliasing, which needs a store: an array is a reference to a list of references to
  setting objects, and \<open>next_ref\<close> is the first reference not yet allocated.
\<close>

type_synonym ref = nat

record store =
  arrays :: "ref \<Rightarrow> ref list option"
  objects :: "ref \<Rightarrow> app_setting option"
  next_ref :: ref

definition array_at :: "store \<Rightarrow> ref \<Rightarrow> ref list" where
  "array_at st a = (case arrays st a of None \<Rightarrow> [] | Some xs \<Rightarrow> xs)"

text \<open>The settings an array holds.\<close>

definition read_array :: "store \<Rightarrow> ref \<Rightarrow> app_setting list" where
  "read_array st a = List.map_filter (objects st) (array_at st a)"

text \<open>
  \<open>[...this.settings]\<close>, where \<open>this_settings\<close> is the reference that the field holds: a
  new array with the same elements.
\<close>

definition getSettings_store :: "ref \<Rightarrow> store \<Rightarrow> ref \<times> store" where
  "getSettings_store this_settings st =
     (next_ref st,
      st\<lparr>arrays := (arrays st)(next_ref st \<mapsto> array_at st this_settings),
         next_ref := Suc (next_ref st)\<rparr>)"

definition getSetting_store :: "string \<Rightarrow> ref \<Rightarrow> store \<Rightarrow> setting_value" where
  "getSetting_store k this_settings st =
     (case find (\<lambda>x. key x = k) (read_array st this_settings) of
        None \<Rightarrow> VUndefined | Some x \<Rightarrow> setting_val x)"

text \<open>
  A mutation of the array \<open>a\<close> (\<open>push\<close>, \<open>pop\<close>, \<open>splice\<close>, \<open>sort\<close>, an assignment to an
  index or to \<open>length\<close>): the array holds other elements after it.
\<close>

definition mutate_array :: "ref \<Rightarrow> (ref list \<Rightarrow> ref list) \<Rightarrow> store \<Rightarrow> store" where
  "mutate_array a f st = st\<lparr>arrays := (arrays st)(a \<mapsto> f (array_at st a))\<rparr>"

text \<open>An assignment to the \<open>value\<close> of the setting object \<open>r\<close>.\<close>

definition mutate_object :: "ref \<Rightarrow> setting_value \<Rightarrow> store \<Rightarrow> store" where
  "mutate_object r v st =
     (case objects st r of
        None \<Rightarrow> st
      | Some x \<Rightarrow> st\<lparr>objects := (objects st)(r \<mapsto> x\<lparr>setting_val := v\<rparr>)\<rparr>)"

section \<open>The notions of the specification, and what a trace holds\<close>

text \<open>
  The value of a key in a snapshot of the settings, and the last value observed for the
  key in the snapshots seen so far (oldest first); \<open>undefined\<close> before the first.
\<close>

definition value_in :: "string \<Rightarrow> app_setting list \<Rightarrow> setting_value option" where
  "value_in k snapshot = map_option setting_val (find (\<lambda>x. key x = k) snapshot)"

definition last_observed :: "string \<Rightarrow> app_setting list list \<Rightarrow> setting_value" where
  "last_observed k seen =
     (case rev (List.map_filter (value_in k) seen) of [] \<Rightarrow> VUndefined | v # vs \<Rightarrow> v)"

text \<open>
  The calls the specification expects of the callback of \<open>onSettingChange\<close>: one for each
  snapshot whose value of the key differs from the last observed value, with the new
  value and that last observed value.
\<close>

fun expected_calls ::
  "string \<Rightarrow> app_setting list list \<Rightarrow> app_setting list list \<Rightarrow> (setting_value \<times> setting_value) list" where
  "expected_calls k seen [] = []"
| "expected_calls k seen (snapshot # rest) =
     (case value_in k snapshot of
        None \<Rightarrow> []
      | Some v \<Rightarrow> if v \<noteq> last_observed k seen then [(v, last_observed k seen)] else [])
     @ expected_calls k (seen @ [snapshot]) rest"

text \<open>
  The calls the closure of \<open>onSettingChange\<close> makes on a sequence of snapshots, from a
  value of \<open>previousValue\<close>.
\<close>

fun observe ::
  "string \<Rightarrow> (setting_value \<Rightarrow> setting_value \<Rightarrow> outcome) \<Rightarrow> app_setting list list \<Rightarrow> setting_value
     \<Rightarrow> (setting_value \<times> setting_value) list" where
  "observe k h [] prev = []"
| "observe k h (snapshot # rest) prev =
     (case settingsHandler k h (PSettings snapshot) prev of
        (prev', calls) \<Rightarrow> calls @ observe k h rest prev')"

text \<open>
  What a trace holds: the calls of the callback of the closure \<open>c\<close>, the events fired,
  the handlers invoked and the listeners called (by their identities), and the number of
  calls of \<open>subscribe\<close> for a stream type.
\<close>

fun change_of :: "nat \<Rightarrow> call \<Rightarrow> (setting_value \<times> setting_value) option" where
  "change_of c (Changed c' v pv) = (if c' = c then Some (v, pv) else None)"
| "change_of c x = None"

definition changes :: "nat \<Rightarrow> call list \<Rightarrow> (setting_value \<times> setting_value) list" where
  "changes c calls = List.map_filter (change_of c) calls"

fun fired_of :: "call \<Rightarrow> (event_type \<times> payload) option" where
  "fired_of (Fired ev p) = Some (ev, p)"
| "fired_of x = None"

definition fired :: "call list \<Rightarrow> (event_type \<times> payload) list" where
  "fired calls = List.map_filter fired_of calls"

fun invoked_of :: "call \<Rightarrow> nat option" where
  "invoked_of (Invoked i p) = Some i"
| "invoked_of x = None"

definition invoked :: "call list \<Rightarrow> nat list" where
  "invoked calls = List.map_filter invoked_of calls"

fun called_of :: "call \<Rightarrow> nat option" where
  "called_of (Called i p) = Some i"
| "called_of x = None"

definition called :: "call list \<Rightarrow> nat list" where
  "called calls = List.map_filter called_of calls"

definition subscribe_calls :: "stream_type \<Rightarrow> call list \<Rightarrow> nat" where
  "subscribe_calls t calls = length (filter (\<lambda>c. c = Subscribed t) calls)"

text \<open>The handlers registered for a stream type.\<close>

definition registered :: "stream_type \<Rightarrow> event_manager \<Rightarrow> (nat \<times> handler) list" where
  "registered t em = (case handlers em (Stream t) of None \<Rightarrow> [] | Some hs \<Rightarrow> hs)"

text \<open>A message is an object: an object literal, an array or a date.\<close>

fun is_object :: "jsval \<Rightarrow> bool" where
  "is_object (JObj kvs) = True"
| "is_object (JArr xs) = True"
| "is_object (JDate t) = True"
| "is_object v = False"


text \<open>
  What a connection acknowledgment makes of the session: the settings it carries (none
  is the empty list), the configuration it carries if that is valid (else the one known
  before), the default values of that configuration where no settings were carried (one
  setting for each entry that is no group heading, its value its default value), and the
  session after the \<open>connected\<close> event and the push of the subscription list on the
  channel \<open>w\<close>.
\<close>

definition carried_settings :: "cloud_message \<Rightarrow> app_setting list" where
  "carried_settings m = (case msg_settings m of None \<Rightarrow> [] | Some x \<Rightarrow> x)"

definition adopted_config :: "(tpa_config \<Rightarrow> bool) \<Rightarrow> cloud_message \<Rightarrow> tpa_session \<Rightarrow> tpa_config option" where
  "adopted_config valid m s =
     (case msg_config m of None \<Rightarrow> tpaConfig s | Some c \<Rightarrow> if valid c then Some c else tpaConfig s)"

fun default_of :: "config_item \<Rightarrow> app_setting option" where
  "default_of (SettingItem a) = Some \<lparr>key = key a, setting_val = defaultValue a, defaultValue = defaultValue a\<rparr>"
| "default_of (GroupItem title) = None"

definition default_values :: "tpa_config \<Rightarrow> app_setting list" where
  "default_values c = List.map_filter default_of (config_settings c)"

definition adopted_settings :: "(tpa_config \<Rightarrow> bool) \<Rightarrow> cloud_message \<Rightarrow> tpa_session \<Rightarrow> app_setting list" where
  "adopted_settings valid m s =
     (if carried_settings m = []
      then (case adopted_config valid m s of None \<Rightarrow> [] | Some c \<Rightarrow> default_values c)
      else carried_settings m)"

definition acknowledged :: "(tpa_config \<Rightarrow> bool) \<Rightarrow> int \<Rightarrow> cloud_message \<Rightarrow> websocket \<Rightarrow> tpa_session \<Rightarrow> tpa_session" where
  "acknowledged valid now m w s =
     (let s1 = s\<lparr>settings := adopted_settings valid m s, tpaConfig := adopted_config valid m s,
                  emitted := emitted s @ [(Connected, PSettings (adopted_settings valid m s))]\<rparr>
      in s1\<lparr>ws := Some (w\<lparr>sent := sent w @ [subscription_update now s1]\<rparr>)\<rparr>)"

text \<open>
  Why the push of the subscription list fails, where it does: there is no channel, the
  channel is not open (the error names its state), or the transport refuses the frame.
  Where the push fails the session has emitted \<open>connected\<close> and the two \<open>error\<close> events
  of \<open>send\<close> and of \<open>handleMessage\<close>, and has sent nothing.
\<close>

definition push_failure :: "tpa_session \<Rightarrow> part list option" where
  "push_failure s =
     (case ws s of
        None \<Rightarrow> Some [Txt ''WebSocket connection not established'']
      | Some w \<Rightarrow>
          if readyState w = 0 then Some [Txt ''WebSocket not connected (current state: CONNECTING)'']
          else if readyState w = 2 then Some [Txt ''WebSocket not connected (current state: CLOSING)'']
          else if readyState w = 3 then Some [Txt ''WebSocket not connected (current state: CLOSED)'']
          else if readyState w \<noteq> 1 then Some [Txt ''WebSocket not connected (current state: UNKNOWN)'']
          else (case send_failure w of
                  None \<Rightarrow> None
                | Some err \<Rightarrow> Some [Txt (''Failed to send message: '' @ err)]))"

definition unacknowledged ::
  "(tpa_config \<Rightarrow> bool) \<Rightarrow> cloud_message \<Rightarrow> part list \<Rightarrow> tpa_session \<Rightarrow> tpa_session" where
  "unacknowledged valid m e s =
     s\<lparr>settings := adopted_settings valid m s, tpaConfig := adopted_config valid m s,
       emitted := emitted s @
         [(Connected, PSettings (adopted_settings valid m s)),
          (Error, PError e),
          (Error, PError (Txt ''Error processing message: '' # e))]\<rparr>"



text \<open>
  The maximum number of reconnection attempts and the base delay: the configured value,
  or 5 and 1000 where none or zero is configured.
\<close>

fun configured_or :: "int \<Rightarrow> int property \<Rightarrow> int" where
  "configured_or d (Given n) = (if n = 0 then d else n)"
| "configured_or d GivenUndefined = d"
| "configured_or d Omitted = d"

definition maximum_attempts :: "tpa_session_config \<Rightarrow> int" where
  "maximum_attempts c = configured_or 5 (maxReconnectAttempts c)"

definition base_delay :: "tpa_session_config \<Rightarrow> int" where
  "base_delay c = configured_or 1000 (reconnectDelay c)"

text \<open>
  A \<open>network\<close> on which every attempt to connect is rejected; it leaves the counter, the
  configuration and the session id of the session alone. A session that may reconnect:
  auto-reconnect is on and a session id that is not empty is set.
\<close>

definition rejecting :: "(tpa_session \<Rightarrow> (part list + unit) \<times> tpa_session) \<Rightarrow> bool" where
  "rejecting network =
     (\<forall>s. (\<exists>e. fst (network s) = Inl e) \<and>
          reconnectAttempts (snd (network s)) = reconnectAttempts s \<and>
          config (snd (network s)) = config s \<and>
          sessionId (snd (network s)) = sessionId s)"

definition reconnectable :: "tpa_session \<Rightarrow> bool" where
  "reconnectable s =
     (autoReconnect (config s) = Given True \<and> (case sessionId s of None \<Rightarrow> False | Some i \<Rightarrow> i \<noteq> []))"

text \<open>
  The delays expected of \<open>n\<close> calls of \<open>handleReconnection\<close> in a row that all fail, from
  the counter \<open>a\<close>: the base delay doubled with each attempt, and none once the counter
  has reached the maximum.
\<close>

fun expected_delays :: "tpa_session_config \<Rightarrow> nat \<Rightarrow> nat \<Rightarrow> int option list" where
  "expected_delays c a 0 = []"
| "expected_delays c a (Suc n) =
     (if int a < maximum_attempts c then Some (base_delay c * 2 ^ a) else None) # expected_delays c (Suc a) n"

text \<open>
  A listener that never throws, the messages of what the handlers of a list throw on a
  payload (in order), a manager whose \<open>error\<close> event has listeners none of which throws,
  and two managers with the same registrations.
\<close>

fun quiet :: "listener \<Rightarrow> bool" where
  "quiet (Listener i f) = (\<forall>p. f p = Returns)"
| "quiet (SettingsHandler c k h) = True"

text \<open>
  The events that carry settings (\<open>connected\<close> and \<open>settings_update\<close>). A manager is calm
  for a closure \<open>c\<close> when no listener of these two events throws or is that closure, and
  no handler is registered for them. It is watching with the closure when for both events
  the closure is registered once among such listeners. A new manager on which nothing but
  the closure is registered is one.
\<close>

definition settings_event :: "event_type \<times> app_setting list \<Rightarrow> event_type \<times> payload" where
  "settings_event x = (fst x, PSettings (snd x))"

definition settings_events :: "(event_type \<times> app_setting list) list \<Rightarrow> bool" where
  "settings_events evs = (\<forall>x \<in> set evs. fst x = Connected \<or> fst x = SettingsUpdate)"

definition others_calm :: "nat \<Rightarrow> listener list \<Rightarrow> bool" where
  "others_calm c ls = (\<forall>l \<in> set ls. quiet l \<and> listener_id l \<noteq> c)"

definition calm :: "nat \<Rightarrow> event_manager \<Rightarrow> bool" where
  "calm c em =
     (others_calm c (listeners_of Connected em) \<and> others_calm c (listeners_of SettingsUpdate em) \<and>
      handlers em Connected = None \<and> handlers em SettingsUpdate = None)"

definition heard_once ::
  "nat \<Rightarrow> string \<Rightarrow> (setting_value \<Rightarrow> setting_value \<Rightarrow> outcome) \<Rightarrow> listener list \<Rightarrow> bool" where
  "heard_once c k h ls =
     (\<exists>before after. ls = before @ SettingsHandler c k h # after \<and> others_calm c (before @ after))"

definition watching :: "nat \<Rightarrow> string \<Rightarrow> (setting_value \<Rightarrow> setting_value \<Rightarrow> outcome) \<Rightarrow> event_manager \<Rightarrow> bool" where
  "watching c k h em =
     (heard_once c k h (listeners_of Connected em) \<and> heard_once c k h (listeners_of SettingsUpdate em) \<and>
      handlers em Connected = None \<and> handlers em SettingsUpdate = None)"

definition watched_manager :: "nat \<Rightarrow> string \<Rightarrow> (setting_value \<Rightarrow> setting_value \<Rightarrow> outcome) \<Rightarrow> event_manager" where
  "watched_manager c k h = onSettingChange c k h new_EventManager"

definition thrown_by :: "payload \<Rightarrow> nat \<times> handler \<Rightarrow> part list option" where
  "thrown_by p h = (case snd h p of Returns \<Rightarrow> None | Throws e \<Rightarrow> Some e)"

definition thrown :: "(nat \<times> handler) list \<Rightarrow> payload \<Rightarrow> part list list" where
  "thrown hs p = List.map_filter (thrown_by p) hs"

definition errors_heard :: "event_manager \<Rightarrow> bool" where
  "errors_heard em = (listeners_of Error em \<noteq> [] \<and> (\<forall>l \<in> set (listeners_of Error em). quiet l))"

definition same_registrations :: "event_manager \<Rightarrow> event_manager \<Rightarrow> bool" where
  "same_registrations em em' = (emitter em' = emitter em \<and> handlers em' = handlers em)"

section \<open>Sample data\<close>

definition returning :: handler where
  "returning p = Returns"

definition throwing :: handler where
  "throwing p = Throws [Txt ''boom'']"

definition failing_callback :: "setting_value \<Rightarrow> setting_value \<Rightarrow> outcome" where
  "failing_callback v pv = Throws [Txt ''boom'']"

definition quiet_callback :: "setting_value \<Rightarrow> setting_value \<Rightarrow> outcome" where
  "quiet_callback v pv = Returns"

definition volume :: "rat \<Rightarrow> app_setting" where
  "volume n = \<lparr>key = ''vol'', setting_val = VNum n, defaultValue = VNum 1\<rparr>"

definition sample_config :: tpa_session_config where
  "sample_config =
     \<lparr>packageName = ''org.example.app'', apiKey = ''secret'', augmentOSWebsocketUrl = Omitted,
      autoReconnect = Given True, maxReconnectAttempts = Omitted, reconnectDelay = Omitted\<rparr>"

definition open_channel :: websocket where
  "open_channel = \<lparr>readyState = 1, sent = [], send_failure = None\<rparr>"

definition connecting_channel :: websocket where
  "connecting_channel = \<lparr>readyState = 0, sent = [], send_failure = None\<rparr>"

definition unreachable :: "tpa_session \<Rightarrow> (part list + unit) \<times> tpa_session" where
  "unreachable s = (Inl [Txt ''Connection timeout''], s)"

definition acknowledgment :: cloud_message where
  "acknowledgment =
     \<lparr>msg_type = CONNECTION_ACK, msg_settings = Some [volume 5], msg_config = None,
      msg_message = None, msg_streamType = None, msg_data = JUndefined, msg_reason = None\<rparr>"

text \<open>
  A configuration with a group heading and one setting, and an acknowledgment that
  carries it and no settings.
\<close>

definition sample_tpa_config :: tpa_config where
  "sample_tpa_config = \<lparr>config_settings = [GroupItem ''Audio'', SettingItem (volume 5)]\<rparr>"

definition configured_acknowledgment :: cloud_message where
  "configured_acknowledgment =
     \<lparr>msg_type = CONNECTION_ACK, msg_settings = None, msg_config = Some sample_tpa_config,
      msg_message = None, msg_streamType = None, msg_data = JUndefined, msg_reason = None\<rparr>"


definition by_volume :: "app_setting list \<Rightarrow> part list + stream_type list" where
  "by_volume xs = Inr (if value_in ''vol'' xs = Some (VNum 0) then [] else [AUDIO_CHUNK])"

definition example_session :: tpa_session where
  "example_session = new_TpaSession sample_config"

definition listening_session :: tpa_session where
  "listening_session =
     example_session\<lparr>ws := Some open_channel, subscriptions := [TRANSCRIPTION],
                      settings := [volume 0]\<rparr>"

definition watching_session :: tpa_session where
  "watching_session =
     listening_session\<lparr>shouldUpdateSubscriptionsOnSettingsChange := True,
                        subscriptionUpdateTriggers := [''vol''],
                        subscriptionSettingsHandler := Some by_volume\<rparr>"

definition waiting_session :: tpa_session where
  "waiting_session = example_session\<lparr>sessionId := Some ''session_123''\<rparr>"

text \<open>
  Two sessions that wait to reconnect: one configured with three attempts and a base
  delay of 500, one configured with a maximum of zero.
\<close>

definition hasty_session :: tpa_session where
  "hasty_session =
     (new_TpaSession (sample_config\<lparr>maxReconnectAttempts := Given 3, reconnectDelay := Given 500\<rparr>))
       \<lparr>sessionId := Some ''session_123''\<rparr>"

definition unhurried_session :: tpa_session where
  "unhurried_session =
     (new_TpaSession (sample_config\<lparr>maxReconnectAttempts := Given 0\<rparr>))
       \<lparr>sessionId := Some ''session_123''\<rparr>"

text \<open>
  Two handlers for transcriptions registered on a new session: in the first pair the
  second one throws, in the second pair the first one throws and no listener hears the
  \<open>error\<close> event. A manager with a listener of \<open>connected\<close> and one of
  \<open>settings_update\<close> that return. A manager with an \<open>error\<close> listener and two
  \<open>connected\<close> listeners of which the first throws. A store with the settings array at
  reference 0.
\<close>

definition first_registration :: "(part list + unit) \<times> event_manager \<times> tpa_session" where
  "first_registration =
     addHandler (subscribe 0) TRANSCRIPTION (1, returning) (new_EventManager, example_session)"

definition second_registration :: "(part list + unit) \<times> event_manager \<times> tpa_session" where
  "second_registration =
     addHandler (subscribe 0) TRANSCRIPTION (2, throwing) (snd first_registration)"

definition unguarded_registration :: "(part list + unit) \<times> event_manager \<times> tpa_session" where
  "unguarded_registration =
     addHandler (subscribe 0) TRANSCRIPTION (2, returning)
       (snd (addHandler (subscribe 0) TRANSCRIPTION (1, throwing) (new_EventManager, example_session)))"

definition unguarded_manager :: event_manager where
  "unguarded_manager = fst (snd unguarded_registration)"

definition busy_manager :: event_manager where
  "busy_manager = onSettingsUpdate 7 returning (onConnected 3 returning new_EventManager)"

definition guarded_manager :: event_manager where
  "guarded_manager = onConnected 2 returning (onConnected 1 throwing (onError 3 returning new_EventManager))"

definition sample_store :: store where
  "sample_store =
     \<lparr>arrays = (\<lambda>a. None)(0 \<mapsto> [1]), objects = (\<lambda>r. None)(1 \<mapsto> volume 5), next_ref = 2\<rparr>"

section \<open>Properties of the sanitizer\<close>


lemma get_prop_defined:
  "d \<noteq> JNull \<Longrightarrow> d \<noteq> JUndefined \<Longrightarrow> \<exists>v. get_prop d name = Inr v"
  by (cases d) simp_all

lemma truthy_prop_present:
  "get_prop d name = Inr v \<Longrightarrow> truthy v \<Longrightarrow> has_property d name"
proof (cases d)
  case (JObj kvs)
  assume "get_prop d name = Inr v" and "truthy v"
  with JObj have "map_of kvs name = Some v"
    by (cases "map_of kvs name") auto
  then have "(name, v) \<in> set kvs" by (rule map_of_SomeD)
  then have "name \<in> fst ` set kvs" by force
  with JObj show ?thesis by simp
qed auto

lemma sanitize_checks_returns: "\<exists>v. sanitize_checks now t d = Inr v"
proof (cases "d = JNull \<or> d = JUndefined")
  case True
  then show ?thesis by (auto simp: sanitize_checks_def)
next
  case False
  then have d: "d \<noteq> JNull" "d \<noteq> JUndefined" by simp_all
  from get_prop_defined [OF d] obtain a where a: "get_prop d ''text'' = Inr a" by blast
  from get_prop_defined [OF d] obtain b where b: "get_prop d ''position'' = Inr b" by blast
  from get_prop_defined [OF d] obtain c where c: "get_prop d ''buttonId'' = Inr c" by blast
  from get_prop_defined [OF d] obtain e where e: "get_prop d ''pressType'' = Inr e" by blast
  from d a b c e show ?thesis
    by (simp add: sanitize_checks_def get_prop_opt_def)
qed

lemma sanitize_transcription:
  assumes "d \<noteq> JNull" "d \<noteq> JUndefined"
  shows "sanitizeEventData now TRANSCRIPTION d =
           (if has_string_field d ''text'' then d
            else JObj [(''text'', JStr ''''), (''isFinal'', JBool True),
                       (''startTime'', JNum (of_int now)), (''endTime'', JNum (of_int now))])"
proof -
  from get_prop_defined [OF assms] obtain a where a: "get_prop d ''text'' = Inr a" by blast
  with assms show ?thesis
    by (simp add: sanitizeEventData_def sanitize_checks_def has_string_field_def)
qed

lemma sanitize_head_position:
  assumes "d \<noteq> JNull" "d \<noteq> JUndefined"
  shows "sanitizeEventData now HEAD_POSITION d =
           (if has_string_field d ''position'' then d
            else JObj [(''position'', JStr ''up''), (''timestamp'', JDate now)])"
proof -
  from get_prop_defined [OF assms] obtain a where a: "get_prop d ''position'' = Inr a" by blast
  with assms show ?thesis
    by (simp add: sanitizeEventData_def sanitize_checks_def has_string_field_def get_prop_opt_def)
qed


lemma sanitize_button_press:
  assumes "d \<noteq> JNull" "d \<noteq> JUndefined"
  shows "sanitizeEventData now BUTTON_PRESS d =
           (if truthy_field d ''buttonId'' \<and> truthy_field d ''pressType'' then d
            else JObj [(''buttonId'', JStr ''unknown''), (''pressType'', JStr ''short''),
                       (''timestamp'', JDate now)])"
proof -
  from get_prop_defined [OF assms] obtain a where a: "get_prop d ''buttonId'' = Inr a" by blast
  from get_prop_defined [OF assms] obtain b where b: "get_prop d ''pressType'' = Inr b" by blast
  from a b assms show ?thesis
    by (simp add: sanitizeEventData_def sanitize_checks_def truthy_field_def)
qed

lemma truthy_field_present: "truthy_field d name \<Longrightarrow> has_property d name"
  unfolding truthy_field_def
  by (cases "get_prop d name") (auto intro: truthy_prop_present)

text \<open>
  Claim C1, as the code has it. A payload that is \<open>null\<close> or \<open>undefined\<close> is answered by
  the empty object, whatever the stream type. For every other payload the sanitized
  transcription payload has a string \<open>text\<close>, the sanitized head position payload a string
  \<open>position\<close> (\<open>up\<close> where the input had none), and the sanitized button press payload
  has \<open>buttonId\<close> and \<open>pressType\<close> (\<open>unknown\<close> and \<open>short\<close> where the input lacks a
  truthy one). The checks never throw, so nothing leaves the sanitizer but a value.
\<close>

theorem sanitizeEventData_shape:
  "(d = JNull \<or> d = JUndefined \<longrightarrow> sanitizeEventData now t d = JObj []) \<and>
   (d \<noteq> JNull \<and> d \<noteq> JUndefined \<longrightarrow>
      has_string_field (sanitizeEventData now TRANSCRIPTION d) ''text'' \<and>
      has_string_field (sanitizeEventData now HEAD_POSITION d) ''position'' \<and>
      has_property (sanitizeEventData now BUTTON_PRESS d) ''buttonId'' \<and>
      has_property (sanitizeEventData now BUTTON_PRESS d) ''pressType'' \<and>
      (\<not> has_string_field d ''position'' \<longrightarrow>
         get_prop (sanitizeEventData now HEAD_POSITION d) ''position'' = Inr (JStr ''up'')) \<and>
      (\<not> (truthy_field d ''buttonId'' \<and> truthy_field d ''pressType'') \<longrightarrow>
         get_prop (sanitizeEventData now BUTTON_PRESS d) ''buttonId'' = Inr (JStr ''unknown'') \<and>
         get_prop (sanitizeEventData now BUTTON_PRESS d) ''pressType'' = Inr (JStr ''short''))) \<and>
   (\<exists>v. sanitize_checks now t d = Inr v)"
proof (intro conjI impI)
  assume "d = JNull \<or> d = JUndefined"
  then show "sanitizeEventData now t d = JObj []"
    by (auto simp: sanitizeEventData_def sanitize_checks_def)
next
  assume "d \<noteq> JNull \<and> d \<noteq> JUndefined"
  then show "has_string_field (sanitizeEventData now TRANSCRIPTION d) ''text''"
    by (simp add: sanitize_transcription) (simp add: has_string_field_def)
next
  assume "d \<noteq> JNull \<and> d \<noteq> JUndefined"
  then show "has_string_field (sanitizeEventData now HEAD_POSITION d) ''position''"
    by (simp add: sanitize_head_position) (simp add: has_string_field_def)
next
  assume "d \<noteq> JNull \<and> d \<noteq> JUndefined"
  then show "has_property (sanitizeEventData now BUTTON_PRESS d) ''buttonId''"
    by (simp add: sanitize_button_press truthy_field_present)
next
  assume "d \<noteq> JNull \<and> d \<noteq> JUndefined"
  then show "has_property (sanitizeEventData now BUTTON_PRESS d) ''pressType''"
    by (simp add: sanitize_button_press truthy_field_present)
next
  assume "d \<noteq> JNull \<and> d \<noteq> JUndefined" and "\<not> has_string_field d ''position''"
  then show "get_prop (sanitizeEventData now HEAD_POSITION d) ''position'' = Inr (JStr ''up'')"
    by (simp add: sanitize_head_position)
next
  assume "d \<noteq> JNull \<and> d \<noteq> JUndefined"
    and "\<not> (truthy_field d ''buttonId'' \<and> truthy_field d ''pressType'')"
  then show "get_prop (sanitizeEventData now BUTTON_PRESS d) ''buttonId'' = Inr (JStr ''unknown'')"
    by (auto simp: sanitize_button_press)
next
  assume "d \<noteq> JNull \<and> d \<noteq> JUndefined"
    and "\<not> (truthy_field d ''buttonId'' \<and> truthy_field d ''pressType'')"
  then show "get_prop (sanitizeEventData now BUTTON_PRESS d) ''pressType'' = Inr (JStr ''short'')"
    by (auto simp: sanitize_button_press)
next
  show "\<exists>v. sanitize_checks now t d = Inr v" by (rule sanitize_checks_returns)
qed

text \<open>
  Claim C1 as stated fails on the payload \<open>null\<close>: the sanitized transcription payload is
  the empty object, which has no \<open>text\<close>.
\<close>

theorem sanitizeEventData_null_counterexample:
  "sanitizeEventData 0 TRANSCRIPTION JNull = JObj [] \<and>
   \<not> has_string_field (sanitizeEventData 0 TRANSCRIPTION JNull) ''text''"
  by (simp add: sanitizeEventData_def sanitize_checks_def has_string_field_def)

theorem sanitizeEventData_shape_witness:
  "has_string_field (sanitizeEventData 7 TRANSCRIPTION (JObj [])) ''text'' \<and>
   has_string_field (sanitizeEventData 7 HEAD_POSITION (JObj [])) ''position'' \<and>
   get_prop (sanitizeEventData 7 HEAD_POSITION (JObj [])) ''position'' = Inr (JStr ''up'') \<and>
   has_property (sanitizeEventData 7 BUTTON_PRESS (JObj [])) ''buttonId'' \<and>
   has_property (sanitizeEventData 7 BUTTON_PRESS (JObj [])) ''pressType'' \<and>
   sanitizeEventData 7 VAD JUndefined = JObj []"
proof -
  have d: "JObj [] \<noteq> JNull \<and> JObj [] \<noteq> JUndefined" by simp
  have n: "\<not> has_string_field (JObj []) ''position''" by (simp add: has_string_field_def)
  from sanitizeEventData_shape [of "JObj []" 7 VAD] d n
  have "has_string_field (sanitizeEventData 7 TRANSCRIPTION (JObj [])) ''text''"
    "has_string_field (sanitizeEventData 7 HEAD_POSITION (JObj [])) ''position''"
    "get_prop (sanitizeEventData 7 HEAD_POSITION (JObj [])) ''position'' = Inr (JStr ''up'')"
    "has_property (sanitizeEventData 7 BUTTON_PRESS (JObj [])) ''buttonId''"
    "has_property (sanitizeEventData 7 BUTTON_PRESS (JObj [])) ''pressType''"
    by blast+
  moreover from sanitizeEventData_shape [of JUndefined 7 VAD]
  have "sanitizeEventData 7 VAD JUndefined = JObj []" by blast
  ultimately show ?thesis by blast
qed

section \<open>Properties of send\<close>

lemma is_object_iff: "is_object v \<longleftrightarrow> truthy v \<and> typeof_js v = ''object''"
  by (cases v) simp_all

lemma map_filter_app: "List.map_filter f (xs @ ys) = List.map_filter f xs @ List.map_filter f ys"
  by (induction xs) (auto split: option.splits)

lemma fired_append: "fired (xs @ ys) = fired xs @ fired ys"
  by (simp add: fired_def map_filter_app)

lemma fired_logged_Fired: "fired (trace (logged (Fired ev p) em)) = fired (trace em) @ [(ev, p)]"
  by (simp add: logged_def fired_def map_filter_app)

lemma fired_logged_Invoked: "fired (trace (logged (Invoked i p) em)) = fired (trace em)"
  by (simp add: logged_def fired_def map_filter_app)

lemma fired_logged_Called: "fired (trace (logged (Called i p) em)) = fired (trace em)"
  by (simp add: logged_def fired_def map_filter_app)

lemma fired_Changed: "fired (map (\<lambda>(v, pv). Changed c v pv) calls) = []"
  by (induction calls) (auto simp: fired_def)

lemma run_listener_fired:
  "run_listener l p em = (r, em') \<Longrightarrow> fired (trace em') = fired (trace em)"
proof (cases l)
  case (Listener i f)
  assume "run_listener l p em = (r, em')"
  with Listener show ?thesis
    by (cases "f p") (auto simp: fired_logged_Called)
next
  case (SettingsHandler c k h)
  assume "run_listener l p em = (r, em')"
  with SettingsHandler show ?thesis
    by (auto simp: fired_append fired_Changed split: prod.splits)
qed

lemma run_listeners_fired:
  "run_listeners ls p em = (r, em') \<Longrightarrow> fired (trace em') = fired (trace em)"
proof (induction ls arbitrary: em)
  case Nil
  then show ?case by simp
next
  case (Cons l ls)
  obtain r1 em1 where l: "run_listener l p em = (r1, em1)" by (cases "run_listener l p em")
  then have f1: "fired (trace em1) = fired (trace em)" by (rule run_listener_fired)
  show ?case
  proof (cases r1)
    case None
    with Cons.prems l have "run_listeners ls p em1 = (r, em')" by simp
    then have "fired (trace em') = fired (trace em1)" by (rule Cons.IH)
    with f1 show ?thesis by simp
  next
    case (Some e)
    with Cons.prems l have "em' = em1" by simp
    with f1 show ?thesis by simp
  qed
qed

lemma emitter_emit_fired:
  assumes "emitter_emit ev p em = (r, em')"
  shows "fired (trace em') = fired (trace em) @ [(ev, p)]"
proof (cases "listeners_of ev em")
  case Nil
  with assms show ?thesis
    by (auto simp: emitter_emit_def fired_logged_Fired split: if_splits)
next
  case (Cons l ls)
  with assms have "run_listeners (l # ls) p (logged (Fired ev p) em) = (r, em')"
    by (simp add: emitter_emit_def)
  then have "fired (trace em') = fired (trace (logged (Fired ev p) em))"
    by (rule run_listeners_fired)
  then show ?thesis by (simp add: fired_logged_Fired)
qed

lemma run_handlers_Error_fired:
  "run_handlers Error hs p em = (r, em') \<Longrightarrow> fired (trace em') = fired (trace em)"
proof (induction hs arbitrary: em)
  case Nil
  then show ?case by simp
next
  case (Cons h hs)
  obtain i f where h: "h = (i, f)" by (cases h)
  with Cons.prems have "run_handlers Error hs p (logged (Invoked i p) em) = (r, em')"
    by (cases "f p") simp_all
  then have "fired (trace em') = fired (trace (logged (Invoked i p) em))" by (rule Cons.IH)
  then show ?case by (simp add: fired_logged_Invoked)
qed

lemma emit_Error_fired: "fired (trace (emit Error p em)) = fired (trace em) @ [(Error, p)]"
proof -
  obtain r1 em1 where e1: "emitter_emit Error p em = (r1, em1)" by (cases "emitter_emit Error p em")
  then have f1: "fired (trace em1) = fired (trace em) @ [(Error, p)]" by (rule emitter_emit_fired)
  show ?thesis
  proof (cases r1)
    case (Some e)
    with e1 have "emit Error p em = em1" by (simp add: emit_def emit_try_def)
    with f1 show ?thesis by simp
  next
    case None
    show ?thesis
    proof (cases "handlers em1 Error")
      case None
      with \<open>r1 = None\<close> e1 have "emit Error p em = em1" by (simp add: emit_def emit_try_def)
      with f1 show ?thesis by simp
    next
      case (Some hs)
      obtain r2 em2 where e2: "run_handlers Error hs p em1 = (r2, em2)"
        by (cases "run_handlers Error hs p em1")
      then have f2: "fired (trace em2) = fired (trace em1)" by (rule run_handlers_Error_fired)
      from Some \<open>r1 = None\<close> e1 e2 have "emit Error p em = em2"
        by (cases r2) (simp_all add: emit_def emit_try_def)
      with f1 f2 show ?thesis by simp
    qed
  qed
qed

lemma send_not_established:
  "ws s = None \<Longrightarrow>
   send now message s =
     (Inl [Txt ''WebSocket connection not established''],
      events_emit Error (PError [Txt ''WebSocket connection not established'']) s)"
  by (simp add: send_def send_try_def)

lemma send_not_open:
  "ws s = Some w \<Longrightarrow> readyState w \<noteq> 1 \<Longrightarrow>
   send now message s =
     (Inl [Txt (''WebSocket not connected (current state: '' @ stateName (readyState w) @ '')'')],
      events_emit Error
        (PError [Txt (''WebSocket not connected (current state: '' @ stateName (readyState w) @ '')'')]) s)"
  by (simp add: send_def send_try_def)

lemma send_not_object:
  "ws s = Some w \<Longrightarrow> readyState w = 1 \<Longrightarrow> \<not> is_object message \<Longrightarrow>
   send now message s =
     (Inl [Txt ''Invalid message: must be an object''],
      events_emit Error (PError [Txt ''Invalid message: must be an object'']) s)"
  by (auto simp: send_def send_try_def is_object_iff)

lemma send_untyped:
  "ws s = Some w \<Longrightarrow> readyState w = 1 \<Longrightarrow> is_object message \<Longrightarrow> \<not> has_property message ''type'' \<Longrightarrow>
   send now message s =
     (Inl [Txt (''Invalid message: missing '' @ [CHR 0x22] @ ''type'' @ [CHR 0x22] @ '' property'')],
      events_emit Error
        (PError [Txt (''Invalid message: missing '' @ [CHR 0x22] @ ''type'' @ [CHR 0x22] @ '' property'')]) s)"
  by (auto simp: send_def send_try_def is_object_iff)

lemma stateName_names:
  "stateName 0 = ''CONNECTING'' \<and> stateName 2 = ''CLOSING'' \<and> stateName 3 = ''CLOSED''"
  by (simp add: stateName_def)

lemma same_channel: "\<exists>rest. w = w\<lparr>sent := sent w @ rest\<rparr>"
  by (rule exI [of _ "[]"]) simp

lemma send_try_cases:
  "(\<exists>e. send_try now msg s = (Inl e, s)) \<or>
   (\<exists>w x. ws s = Some w \<and> send_try now msg s = (Inr (), s\<lparr>ws := Some (w\<lparr>sent := sent w @ [x]\<rparr>)\<rparr>))"
  by (auto simp: send_try_def Let_def split: option.splits)

lemma send_frame:
  "settings (snd (send now msg s)) = settings s \<and>
   tpaConfig (snd (send now msg s)) = tpaConfig s \<and>
   subscriptions (snd (send now msg s)) = subscriptions s \<and>
   (\<exists>rest. emitted (snd (send now msg s)) = emitted s @ rest) \<and>
   (\<forall>w. ws s = Some w \<longrightarrow> (\<exists>rest. ws (snd (send now msg s)) = Some (w\<lparr>sent := sent w @ rest\<rparr>)))"
proof -
  from send_try_cases [of now msg s] show ?thesis
  proof
    assume "\<exists>e. send_try now msg s = (Inl e, s)"
    then obtain e where "send_try now msg s = (Inl e, s)" by blast
    then show ?thesis by (simp add: send_def events_emit_def same_channel)
  next
    assume "\<exists>w x. ws s = Some w \<and> send_try now msg s = (Inr (), s\<lparr>ws := Some (w\<lparr>sent := sent w @ [x]\<rparr>)\<rparr>)"
    then obtain w x where "ws s = Some w"
      and "send_try now msg s = (Inr (), s\<lparr>ws := Some (w\<lparr>sent := sent w @ [x]\<rparr>)\<rparr>)" by blast
    then show ?thesis by (auto simp: send_def)
  qed
qed

text \<open>
  Claim C3. \<open>send\<close> throws when there is no channel handle, when the channel is not open
  (the message names the state, \<open>CONNECTING\<close> for state 0), when the message is not an
  object and when the message has no \<open>type\<close>. Each of these failures emits exactly one
  \<open>error\<close> event that carries the error thrown, changes nothing else of the session
  (nothing is transmitted), and the event manager fires that event once.
\<close>

theorem send_fails_and_reports:
  assumes "ws s = None \<or> (\<exists>w. ws s = Some w \<and> readyState w \<noteq> 1) \<or> \<not> is_object message
             \<or> \<not> has_property message ''type''"
  shows "\<exists>e. send now message s = (Inl e, s\<lparr>emitted := emitted s @ [(Error, PError e)]\<rparr>) \<and>
             (\<forall>em. fired (trace (deliver [(Error, PError e)] em)) = fired (trace em) @ [(Error, PError e)]) \<and>
             (ws s = None \<longrightarrow> e = [Txt ''WebSocket connection not established'']) \<and>
             (\<forall>w. ws s = Some w \<and> readyState w \<noteq> 1 \<longrightarrow>
                e = [Txt (''WebSocket not connected (current state: '' @ stateName (readyState w) @ '')'')]) \<and>
             (\<forall>w. ws s = Some w \<and> readyState w = 1 \<and> \<not> is_object message \<longrightarrow>
                e = [Txt ''Invalid message: must be an object'']) \<and>
             (\<forall>w. ws s = Some w \<and> readyState w = 1 \<and> is_object message \<longrightarrow>
                e = [Txt (''Invalid message: missing '' @ [CHR 0x22] @ ''type'' @ [CHR 0x22] @ '' property'')]) \<and>
             stateName 0 = ''CONNECTING'' \<and> stateName 2 = ''CLOSING'' \<and> stateName 3 = ''CLOSED''"
proof -
  have d: "\<And>e em. fired (trace (deliver [(Error, PError e)] em)) = fired (trace em) @ [(Error, PError e)]"
    by (simp add: deliver_def emit_Error_fired)
  note n = stateName_names
  show ?thesis
  proof (cases "ws s")
    case None
    with d n show ?thesis
      by (simp add: send_not_established events_emit_def)
  next
    case (Some w)
    show ?thesis
    proof (cases "readyState w = 1")
      case False
      with Some d n show ?thesis
        by (simp add: send_not_open events_emit_def)
    next
      case True
      show ?thesis
      proof (cases "is_object message")
        case False
        with Some True d n show ?thesis
          by (simp add: send_not_object events_emit_def)
      next
        case obj: True
        with assms Some True have "\<not> has_property message ''type''" by simp
        with Some True obj d n show ?thesis
          by (simp add: send_untyped events_emit_def)
      qed
    qed
  qed
qed

theorem send_fails_and_reports_witness:
  "send 0 (JObj [(''type'', JStr ''display_event'')]) (example_session\<lparr>ws := Some connecting_channel\<rparr>) =
     (Inl [Txt ''WebSocket not connected (current state: CONNECTING)''],
      example_session\<lparr>ws := Some connecting_channel,
                       emitted := [(Error, PError [Txt ''WebSocket not connected (current state: CONNECTING)''])]\<rparr>)"
proof -
  let ?s = "example_session\<lparr>ws := Some connecting_channel\<rparr>"
  have w: "ws ?s = Some connecting_channel" "readyState connecting_channel = 0" "emitted ?s = []"
    by (simp_all add: connecting_channel_def example_session_def new_TpaSession_def)
  then have "ws ?s = None \<or> (\<exists>w. ws ?s = Some w \<and> readyState w \<noteq> 1)
      \<or> \<not> is_object (JObj [(''type'', JStr ''display_event'')])
      \<or> \<not> has_property (JObj [(''type'', JStr ''display_event'')]) ''type''"
    by simp
  from send_fails_and_reports [OF this, of 0] obtain e where
    e: "send 0 (JObj [(''type'', JStr ''display_event'')]) ?s =
          (Inl e, ?s\<lparr>emitted := emitted ?s @ [(Error, PError e)]\<rparr>)"
    and m: "\<forall>w. ws ?s = Some w \<and> readyState w \<noteq> 1 \<longrightarrow>
          e = [Txt (''WebSocket not connected (current state: '' @ stateName (readyState w) @ '')'')]"
    by blast
  from m w have "e = [Txt (''WebSocket not connected (current state: '' @ stateName 0 @ '')'')]"
    by simp
  then have "e = [Txt ''WebSocket not connected (current state: CONNECTING)'']"
    by (simp add: stateName_def)
  with e w show ?thesis by simp
qed

section \<open>Properties of the subscriptions\<close>


lemma updateSubscriptions_open:
  assumes "ws s = Some w" "readyState w = 1" "send_failure w = None"
  shows "updateSubscriptions now s =
           (Inr (), s\<lparr>ws := Some (w\<lparr>sent := sent w @ [subscription_update now s]\<rparr>)\<rparr>)"
  using assms
  by (simp add: updateSubscriptions_def send_def send_try_def subscription_update_def)

lemma updateSubscriptionsFromSettings_open:
  assumes "subscriptionSettingsHandler s = Some h" "h (settings s) = Inr subs"
    and "ws s = Some w" "readyState w = 1" "send_failure w = None"
  shows "updateSubscriptionsFromSettings now s =
           s\<lparr>subscriptions := fold set_add subs [],
             ws := Some (w\<lparr>sent := sent w @ [subscription_update now (s\<lparr>subscriptions := fold set_add subs []\<rparr>)]\<rparr>)\<rparr>"
proof -
  let ?s1 = "s\<lparr>subscriptions := fold set_add subs []\<rparr>"
  from assms have o: "is_open ?s1" by (simp add: is_open_def)
  from assms have "updateSubscriptions now ?s1 =
      (Inr (), ?s1\<lparr>ws := Some (w\<lparr>sent := sent w @ [subscription_update now ?s1]\<rparr>)\<rparr>)"
    by (intro updateSubscriptions_open) simp_all
  with assms o show ?thesis
    by (simp add: updateSubscriptionsFromSettings_def Let_def)
qed

text \<open>While the channel is not open the recomputed subscriptions are stored and not sent.\<close>

lemma updateSubscriptionsFromSettings_closed:
  assumes "subscriptionSettingsHandler s = Some h" "h (settings s) = Inr subs" "\<not> is_open s"
  shows "updateSubscriptionsFromSettings now s = s\<lparr>subscriptions := fold set_add subs []\<rparr>"
  using assms by (simp add: updateSubscriptionsFromSettings_def Let_def is_open_def)

lemma updateSubscriptionsFromSettings_throws:
  assumes "subscriptionSettingsHandler s = Some h" "h (settings s) = Inl e"
  shows "updateSubscriptionsFromSettings now s =
           events_emit Error (PError ([Txt ''Failed to update subscriptions: ''] @ e)) s"
  using assms by (simp add: updateSubscriptionsFromSettings_def)

lemma updateSubscriptionsFromSettings_frame:
  "settings (updateSubscriptionsFromSettings now s) = settings s \<and>
   tpaConfig (updateSubscriptionsFromSettings now s) = tpaConfig s \<and>
   (\<exists>rest. emitted (updateSubscriptionsFromSettings now s) = emitted s @ rest) \<and>
   (\<forall>w. ws s = Some w \<longrightarrow>
      (\<exists>rest. ws (updateSubscriptionsFromSettings now s) = Some (w\<lparr>sent := sent w @ rest\<rparr>)))"
proof (cases "subscriptionSettingsHandler s")
  case None
  then show ?thesis by (simp add: updateSubscriptionsFromSettings_def same_channel)
next
  case (Some h)
  show ?thesis
  proof (cases "h (settings s)")
    case (Inl e)
    with Some show ?thesis
      by (simp add: updateSubscriptionsFromSettings_def events_emit_def same_channel)
  next
    case (Inr subs)
    let ?s1 = "s\<lparr>subscriptions := fold set_add subs []\<rparr>"
    obtain r s2 where u: "send now (subscription_update now ?s1) ?s1 = (r, s2)"
      by (cases "send now (subscription_update now ?s1) ?s1")
    from send_frame [of now "subscription_update now ?s1" ?s1] u
    have f: "settings s2 = settings s" "tpaConfig s2 = tpaConfig s"
      "\<exists>rest. emitted s2 = emitted s @ rest"
      "\<forall>w. ws s = Some w \<longrightarrow> (\<exists>rest. ws s2 = Some (w\<lparr>sent := sent w @ rest\<rparr>))"
      by simp_all
    show ?thesis
    proof (cases "is_open ?s1")
      case False
      with Some Inr show ?thesis
        by (simp add: updateSubscriptionsFromSettings_def Let_def same_channel)
    next
      case True
      with Some Inr u f show ?thesis
        by (cases r) (auto simp: updateSubscriptionsFromSettings_def Let_def
            updateSubscriptions_def events_emit_def)
    qed
  qed
qed

text \<open>
  Claim C10. While the channel handle is absent or not open, \<open>subscribe\<close> returns
  normally, adds the stream type to the subscription set, sends nothing and emits no
  error. The stream type is in the list that the next push of the subscription list
  sends once the channel is open.
\<close>

theorem subscribe_while_not_open:
  assumes "ws s = None \<or> (\<exists>w. ws s = Some w \<and> readyState w \<noteq> 1)"
  shows "subscribe now t s = (Inr (), s\<lparr>subscriptions := set_add t (subscriptions s)\<rparr>) \<and>
         t \<in> set (subscriptions (snd (subscribe now t s))) \<and>
         ws (snd (subscribe now t s)) = ws s \<and>
         emitted (snd (subscribe now t s)) = emitted s \<and>
         (\<forall>w later. readyState w = 1 \<and> send_failure w = None \<longrightarrow>
            (\<exists>s'. updateSubscriptions later ((snd (subscribe now t s))\<lparr>ws := Some w\<rparr>) = (Inr (), s') \<and>
                  (\<exists>frame tags. ws s' = Some (w\<lparr>sent := sent w @ [frame]\<rparr>) \<and>
                     get_prop frame ''subscriptions'' = Inr (JArr tags) \<and>
                     JEnum (StreamMember t) \<in> set tags)))"
proof -
  from assms have closed: "\<not> is_open (s\<lparr>subscriptions := set_add t (subscriptions s)\<rparr>)"
    by (auto simp: is_open_def)
  then have eq: "subscribe now t s = (Inr (), s\<lparr>subscriptions := set_add t (subscriptions s)\<rparr>)"
    by (simp add: subscribe_def)
  have mem: "t \<in> set (set_add t (subscriptions s))" by (simp add: set_add_def)
  have push: "\<exists>s'. updateSubscriptions later ((snd (subscribe now t s))\<lparr>ws := Some w\<rparr>) = (Inr (), s') \<and>
                  (\<exists>frame tags. ws s' = Some (w\<lparr>sent := sent w @ [frame]\<rparr>) \<and>
                     get_prop frame ''subscriptions'' = Inr (JArr tags) \<and>
                     JEnum (StreamMember t) \<in> set tags)"
    if w: "readyState w = 1 \<and> send_failure w = None" for w later
  proof -
    let ?s2 = "s\<lparr>subscriptions := set_add t (subscriptions s), ws := Some w\<rparr>"
    from w have u: "updateSubscriptions later ?s2 =
        (Inr (), ?s2\<lparr>ws := Some (w\<lparr>sent := sent w @ [subscription_update later ?s2]\<rparr>)\<rparr>)"
      by (intro updateSubscriptions_open) simp_all
    have g: "get_prop (subscription_update later ?s2) ''subscriptions'' =
               Inr (JArr (map (\<lambda>t. JEnum (StreamMember t)) (set_add t (subscriptions s))))"
      by (simp add: subscription_update_def)
    from mem have "JEnum (StreamMember t) \<in> set (map (\<lambda>t. JEnum (StreamMember t)) (set_add t (subscriptions s)))"
      by simp
    with u g show ?thesis unfolding eq
      by (intro exI [of _ "?s2\<lparr>ws := Some (w\<lparr>sent := sent w @ [subscription_update later ?s2]\<rparr>)\<rparr>"]
          conjI exI [of _ "subscription_update later ?s2"]
          exI [of _ "map (\<lambda>t. JEnum (StreamMember t)) (set_add t (subscriptions s))"]) simp_all
  qed
  from eq mem push show ?thesis by simp
qed

theorem subscribe_while_not_open_witness:
  "subscribe 0 TRANSCRIPTION (example_session\<lparr>ws := Some connecting_channel\<rparr>) =
     (Inr (), example_session\<lparr>ws := Some connecting_channel, subscriptions := [TRANSCRIPTION]\<rparr>) \<and>
   (\<exists>s' frame tags.
      updateSubscriptions 9 (example_session\<lparr>subscriptions := [TRANSCRIPTION], ws := Some open_channel\<rparr>) =
        (Inr (), s') \<and>
      ws s' = Some (open_channel\<lparr>sent := sent open_channel @ [frame]\<rparr>) \<and>
      get_prop frame ''subscriptions'' = Inr (JArr tags) \<and>
      JEnum (StreamMember TRANSCRIPTION) \<in> set tags)"
proof -
  let ?s = "example_session\<lparr>ws := Some connecting_channel\<rparr>"
  have w: "ws ?s = Some connecting_channel" "readyState connecting_channel \<noteq> 1"
    "subscriptions ?s = []"
    by (simp_all add: connecting_channel_def example_session_def new_TpaSession_def)
  then have "ws ?s = None \<or> (\<exists>w. ws ?s = Some w \<and> readyState w \<noteq> 1)" by simp
  note T = subscribe_while_not_open [OF this, of 0 TRANSCRIPTION]
  from T w have 1: "subscribe 0 TRANSCRIPTION ?s =
      (Inr (), example_session\<lparr>ws := Some connecting_channel, subscriptions := [TRANSCRIPTION]\<rparr>)"
    by (simp add: set_add_def)
  have o: "readyState open_channel = 1 \<and> send_failure open_channel = None"
    by (simp add: open_channel_def)
  from T o have "\<exists>s'. updateSubscriptions 9 ((snd (subscribe 0 TRANSCRIPTION ?s))\<lparr>ws := Some open_channel\<rparr>) =
        (Inr (), s') \<and>
      (\<exists>frame tags. ws s' = Some (open_channel\<lparr>sent := sent open_channel @ [frame]\<rparr>) \<and>
         get_prop frame ''subscriptions'' = Inr (JArr tags) \<and>
         JEnum (StreamMember TRANSCRIPTION) \<in> set tags)"
    by blast
  then have "\<exists>s' frame tags.
      updateSubscriptions 9 (example_session\<lparr>subscriptions := [TRANSCRIPTION], ws := Some open_channel\<rparr>) =
        (Inr (), s') \<and>
      ws s' = Some (open_channel\<lparr>sent := sent open_channel @ [frame]\<rparr>) \<and>
      get_prop frame ''subscriptions'' = Inr (JArr tags) \<and>
      JEnum (StreamMember TRANSCRIPTION) \<in> set tags"
    unfolding 1 by simp
  with 1 show ?thesis by blast
qed

section \<open>Properties of the inbound messages\<close>

lemma handleMessage_ack:
  assumes "msg_type m = CONNECTION_ACK"
  shows "handleMessage validateTpaConfig now (Message m) s =
           (case handle_connection_ack validateTpaConfig now m s of
              (Inl e, s') \<Rightarrow> events_emit Error (PError ([Txt ''Error processing message: ''] @ e)) s'
            | (Inr u, s') \<Rightarrow> s')"
  using assms by (simp add: handleMessage_def dispatch_message_def isTpaConnectionAck_def)


lemma with_default_value_fields:
  "with_default_value a = \<lparr>key = key a, setting_val = defaultValue a, defaultValue = defaultValue a\<rparr>"
  by (cases a) (simp add: with_default_value_def)

lemma without_groups_defaults:
  "map with_default_value (without_groups xs) = List.map_filter default_of xs"
  by (induction xs rule: without_groups.induct)
     (simp_all add: with_default_value_fields List.map_filter_simps)

lemma getDefaultSettings_values:
  "getDefaultSettings s =
     (case tpaConfig s of
        None \<Rightarrow> Inl [Txt ''TPA configuration not loaded. Call loadConfigFromJson first.'']
      | Some c \<Rightarrow> Inr (default_values c))"
  by (simp add: getDefaultSettings_def default_values_def without_groups_defaults split: option.splits)

text \<open>The branch of the acknowledgment up to the push of the subscription list.\<close>

lemma handle_connection_ack_adopts:
  "handle_connection_ack valid now m s =
     (case updateSubscriptions now
             (s\<lparr>settings := adopted_settings valid m s, tpaConfig := adopted_config valid m s,
                emitted := emitted s @ [(Connected, PSettings (adopted_settings valid m s))]\<rparr>) of
        (Inl e, s5) \<Rightarrow> (Inl e, s5)
      | (Inr u, s5) \<Rightarrow>
          (Inr (),
           if shouldUpdateSubscriptionsOnSettingsChange s5 \<and> length (settings s5) > 0
           then updateSubscriptionsFromSettings now s5 else s5))"
proof -
  let ?s1 = "s\<lparr>settings := carried_settings m\<rparr>"
  let ?s2 = "?s1\<lparr>tpaConfig := adopted_config valid m s\<rparr>"
  let ?s3 = "?s2\<lparr>settings := adopted_settings valid m s\<rparr>"
  let ?s4 = "events_emit Connected (PSettings (adopted_settings valid m s)) ?s3"
  have s2: "(case msg_config m of
                  None \<Rightarrow> ?s1
                | Some c \<Rightarrow> if valid c then ?s1\<lparr>tpaConfig := Some c\<rparr> else ?s1) = ?s2"
    by (simp add: adopted_config_def split: option.splits)
  have s3: "(if length (settings ?s2) = 0 \<and> tpaConfig ?s2 \<noteq> None
                then (case getDefaultSettings ?s2 of Inl e \<Rightarrow> ?s2 | Inr d \<Rightarrow> ?s2\<lparr>settings := d\<rparr>)
                else ?s2) = ?s3"
    by (auto simp: adopted_settings_def getDefaultSettings_values split: option.splits)
  have s4: "?s4 = s\<lparr>settings := adopted_settings valid m s, tpaConfig := adopted_config valid m s,
                emitted := emitted s @ [(Connected, PSettings (adopted_settings valid m s))]\<rparr>"
    by (simp add: events_emit_def)
  have "handle_connection_ack valid now m s =
          (case updateSubscriptions now ?s4 of
             (Inl e, s5) \<Rightarrow> (Inl e, s5)
           | (Inr u, s5) \<Rightarrow>
               (Inr (),
                if shouldUpdateSubscriptionsOnSettingsChange s5 \<and> length (settings s5) > 0
                then updateSubscriptionsFromSettings now s5 else s5))"
    unfolding handle_connection_ack_def Let_def carried_settings_def [symmetric]
    by (simp only: s2 s3) simp
  then show ?thesis by (simp only: s4)
qed

lemma handle_connection_ack_open:
  assumes "ws s = Some w" "readyState w = 1" "send_failure w = None"
  shows "handle_connection_ack valid now m s =
           (Inr (),
            if shouldUpdateSubscriptionsOnSettingsChange s \<and> adopted_settings valid m s \<noteq> []
            then updateSubscriptionsFromSettings now (acknowledged valid now m w s)
            else acknowledged valid now m w s)"
proof -
  let ?s4 = "s\<lparr>settings := adopted_settings valid m s, tpaConfig := adopted_config valid m s,
                emitted := emitted s @ [(Connected, PSettings (adopted_settings valid m s))]\<rparr>"
  from assms have u: "updateSubscriptions now ?s4 =
      (Inr (), ?s4\<lparr>ws := Some (w\<lparr>sent := sent w @ [subscription_update now ?s4]\<rparr>)\<rparr>)"
    by (intro updateSubscriptions_open) simp_all
  have a: "?s4\<lparr>ws := Some (w\<lparr>sent := sent w @ [subscription_update now ?s4]\<rparr>)\<rparr> = acknowledged valid now m w s"
    by (simp add: acknowledged_def Let_def)
  show ?thesis
    unfolding handle_connection_ack_adopts u a [symmetric] by simp
qed

text \<open>
  Where the push fails, \<open>send\<close> emits the error and throws it, and \<open>handleMessage\<close> emits
  it once more; the subscriptions are not recomputed from the settings.
\<close>

lemma updateSubscriptions_fails:
  assumes "push_failure s = Some e"
  shows "updateSubscriptions now s = (Inl e, events_emit Error (PError e) s)"
proof (cases "ws s")
  case None
  with assms show ?thesis
    by (simp add: push_failure_def updateSubscriptions_def send_not_established)
next
  case (Some w)
  show ?thesis
  proof (cases "readyState w = 1")
    case True
    with Some assms obtain err where "send_failure w = Some err" "e = [Txt (''Failed to send message: '' @ err)]"
      by (auto simp: push_failure_def split: option.splits)
    with Some True show ?thesis
      by (simp add: updateSubscriptions_def send_def send_try_def subscription_update_def)
  next
    case False
    with Some assms have "e = [Txt (''WebSocket not connected (current state: '' @ stateName (readyState w) @ '')'')]"
      by (auto simp: push_failure_def stateName_def split: if_splits)
    with Some False show ?thesis
      by (simp add: updateSubscriptions_def send_not_open)
  qed
qed

lemma push_failure_None:
  "push_failure s = None \<longleftrightarrow> (\<exists>w. ws s = Some w \<and> readyState w = 1 \<and> send_failure w = None)"
  by (auto simp: push_failure_def split: option.splits if_splits)

lemma connection_ack_push_fails:
  assumes "msg_type m = CONNECTION_ACK" and "push_failure s = Some e"
  shows "handleMessage valid now (Message m) s = unacknowledged valid m e s"
proof -
  let ?s4 = "s\<lparr>settings := adopted_settings valid m s, tpaConfig := adopted_config valid m s,
                emitted := emitted s @ [(Connected, PSettings (adopted_settings valid m s))]\<rparr>"
  from assms(2) have "push_failure ?s4 = Some e" by (simp add: push_failure_def)
  then have "updateSubscriptions now ?s4 = (Inl e, events_emit Error (PError e) ?s4)"
    by (rule updateSubscriptions_fails)
  then have "handle_connection_ack valid now m s = (Inl e, events_emit Error (PError e) ?s4)"
    unfolding handle_connection_ack_adopts by simp
  with assms(1) show ?thesis
    by (simp add: handleMessage_ack events_emit_def unacknowledged_def)
qed

lemma connection_ack_on_open_channel:
  assumes "msg_type m = CONNECTION_ACK"
    and "ws s = Some w" and "readyState w = 1" and "send_failure w = None"
  shows "handleMessage valid now (Message m) s =
           (if shouldUpdateSubscriptionsOnSettingsChange s \<and> adopted_settings valid m s \<noteq> []
            then updateSubscriptionsFromSettings now (acknowledged valid now m w s)
            else acknowledged valid now m w s) \<and>
         settings (handleMessage valid now (Message m) s) = adopted_settings valid m s \<and>
         tpaConfig (handleMessage valid now (Message m) s) = adopted_config valid m s \<and>
         (\<exists>rest. emitted (handleMessage valid now (Message m) s) =
                    emitted s @ (Connected, PSettings (adopted_settings valid m s)) # rest) \<and>
         (\<exists>frame rest.
            ws (handleMessage valid now (Message m) s) = Some (w\<lparr>sent := sent w @ frame # rest\<rparr>) \<and>
            get_prop frame ''subscriptions'' =
              Inr (JArr (map (\<lambda>t. JEnum (StreamMember t)) (subscriptions s)))) \<and>
         (\<forall>h subs. shouldUpdateSubscriptionsOnSettingsChange s \<and> adopted_settings valid m s \<noteq> [] \<and>
              subscriptionSettingsHandler s = Some h \<and> h (adopted_settings valid m s) = Inr subs \<longrightarrow>
              subscriptions (handleMessage valid now (Message m) s) = fold set_add subs []) \<and>
         (\<not> (shouldUpdateSubscriptionsOnSettingsChange s \<and> adopted_settings valid m s \<noteq> []) \<longrightarrow>
              subscriptions (handleMessage valid now (Message m) s) = subscriptions s)"
proof -
  let ?a = "acknowledged valid now m w s"
  let ?on = "shouldUpdateSubscriptionsOnSettingsChange s \<and> adopted_settings valid m s \<noteq> []"
  have eq: "handleMessage valid now (Message m) s =
              (if ?on then updateSubscriptionsFromSettings now ?a else ?a)"
    using assms by (simp add: handleMessage_ack handle_connection_ack_open)
  have a: "settings ?a = adopted_settings valid m s" "tpaConfig ?a = adopted_config valid m s"
    "emitted ?a = emitted s @ [(Connected, PSettings (adopted_settings valid m s))]"
    "subscriptions ?a = subscriptions s"
    "subscriptionSettingsHandler ?a = subscriptionSettingsHandler s"
    "ws ?a = Some (w\<lparr>sent := sent w @
        [subscription_update now (s\<lparr>settings := adopted_settings valid m s,
           tpaConfig := adopted_config valid m s,
           emitted := emitted s @ [(Connected, PSettings (adopted_settings valid m s))]\<rparr>)]\<rparr>)"
    by (simp_all add: acknowledged_def Let_def)
  let ?frame = "subscription_update now (s\<lparr>settings := adopted_settings valid m s,
           tpaConfig := adopted_config valid m s,
           emitted := emitted s @ [(Connected, PSettings (adopted_settings valid m s))]\<rparr>)"
  have g: "get_prop ?frame ''subscriptions'' =
              Inr (JArr (map (\<lambda>t. JEnum (StreamMember t)) (subscriptions s)))"
    by (simp add: subscription_update_def)
  note f = updateSubscriptionsFromSettings_frame [of now ?a]
  have c2: "settings (handleMessage valid now (Message m) s) = adopted_settings valid m s"
    unfolding eq using f a by simp
  have c3: "tpaConfig (handleMessage valid now (Message m) s) = adopted_config valid m s"
    unfolding eq using f a by simp
  have c4: "\<exists>rest. emitted (handleMessage valid now (Message m) s) =
                    emitted s @ (Connected, PSettings (adopted_settings valid m s)) # rest"
  proof (cases ?on)
    case True
    from f obtain rest where "emitted (updateSubscriptionsFromSettings now ?a) = emitted ?a @ rest"
      by blast
    with True show ?thesis unfolding eq by (simp add: a)
  next
    case False
    then show ?thesis unfolding eq by (auto simp: a)
  qed
  have c5: "\<exists>frame rest.
            ws (handleMessage valid now (Message m) s) = Some (w\<lparr>sent := sent w @ frame # rest\<rparr>) \<and>
            get_prop frame ''subscriptions'' =
              Inr (JArr (map (\<lambda>t. JEnum (StreamMember t)) (subscriptions s)))"
  proof (cases ?on)
    case True
    from f a(6) obtain rest where
      "ws (updateSubscriptionsFromSettings now ?a) =
         Some ((w\<lparr>sent := sent w @ [?frame]\<rparr>)\<lparr>sent := sent (w\<lparr>sent := sent w @ [?frame]\<rparr>) @ rest\<rparr>)"
      by blast
    then have "ws (updateSubscriptionsFromSettings now ?a) = Some (w\<lparr>sent := sent w @ ?frame # rest\<rparr>)"
      by simp
    with True g show ?thesis unfolding eq by auto
  next
    case False
    with g a(6) show ?thesis unfolding eq by auto
  qed
  have c6: "subscriptions (handleMessage valid now (Message m) s) = fold set_add subs []"
    if h: "?on \<and> subscriptionSettingsHandler s = Some h \<and> h (adopted_settings valid m s) = Inr subs"
    for h subs
  proof -
    from h a have "updateSubscriptionsFromSettings now ?a =
        ?a\<lparr>subscriptions := fold set_add subs [],
           ws := Some ((w\<lparr>sent := sent w @ [?frame]\<rparr>)\<lparr>sent := sent (w\<lparr>sent := sent w @ [?frame]\<rparr>) @
              [subscription_update now (?a\<lparr>subscriptions := fold set_add subs []\<rparr>)]\<rparr>)\<rparr>"
      using assms by (intro updateSubscriptionsFromSettings_open [where h = h]) simp_all
    with h show ?thesis unfolding eq by simp
  qed
  have c7: "\<not> ?on \<longrightarrow> subscriptions (handleMessage valid now (Message m) s) = subscriptions s"
    unfolding eq using a by simp
  from eq c2 c3 c4 c5 c6 c7 show ?thesis by blast
qed



text \<open>
  Claim C5, as the code has it. On a connection acknowledgment the session adopts the
  carried settings (none is the empty list), adopts the carried configuration only if it
  is valid, takes the default values of the known configuration where no settings were
  carried, and emits \<open>connected\<close> with the resulting settings. Then it pushes the current
  subscription list. Where the channel is open and accepts the frame, the list is sent,
  and where settings-driven subscriptions are on and the settings are not empty the
  subscriptions are then recomputed from the settings. Where there is no channel, the
  channel is not open or it refuses the frame, nothing is sent, the subscriptions are not
  recomputed, and two \<open>error\<close> events carry the failure.
\<close>

theorem connection_ack_handled:
  assumes "msg_type m = CONNECTION_ACK"
  shows "settings (handleMessage valid now (Message m) s) = adopted_settings valid m s \<and>
         tpaConfig (handleMessage valid now (Message m) s) = adopted_config valid m s \<and>
         (\<exists>rest. emitted (handleMessage valid now (Message m) s) =
                    emitted s @ (Connected, PSettings (adopted_settings valid m s)) # rest) \<and>
         (push_failure s = None \<longleftrightarrow>
            (\<exists>w. ws s = Some w \<and> readyState w = 1 \<and> send_failure w = None)) \<and>
         (\<forall>w. ws s = Some w \<and> readyState w = 1 \<and> send_failure w = None \<longrightarrow>
            handleMessage valid now (Message m) s =
              (if shouldUpdateSubscriptionsOnSettingsChange s \<and> adopted_settings valid m s \<noteq> []
               then updateSubscriptionsFromSettings now (acknowledged valid now m w s)
               else acknowledged valid now m w s) \<and>
            (\<exists>frame rest.
               ws (handleMessage valid now (Message m) s) = Some (w\<lparr>sent := sent w @ frame # rest\<rparr>) \<and>
               get_prop frame ''subscriptions'' =
                 Inr (JArr (map (\<lambda>t. JEnum (StreamMember t)) (subscriptions s)))) \<and>
            (\<forall>h subs. shouldUpdateSubscriptionsOnSettingsChange s \<and> adopted_settings valid m s \<noteq> [] \<and>
                 subscriptionSettingsHandler s = Some h \<and> h (adopted_settings valid m s) = Inr subs \<longrightarrow>
                 subscriptions (handleMessage valid now (Message m) s) = fold set_add subs []) \<and>
            (\<not> (shouldUpdateSubscriptionsOnSettingsChange s \<and> adopted_settings valid m s \<noteq> []) \<longrightarrow>
                 subscriptions (handleMessage valid now (Message m) s) = subscriptions s)) \<and>
         (\<forall>e. push_failure s = Some e \<longrightarrow>
            handleMessage valid now (Message m) s = unacknowledged valid m e s \<and>
            ws (handleMessage valid now (Message m) s) = ws s \<and>
            subscriptions (handleMessage valid now (Message m) s) = subscriptions s \<and>
            emitted (handleMessage valid now (Message m) s) =
              emitted s @
                [(Connected, PSettings (adopted_settings valid m s)),
                 (Error, PError e),
                 (Error, PError (Txt ''Error processing message: '' # e))])"
proof -
  let ?H = "handleMessage valid now (Message m) s"
  have fails: "?H = unacknowledged valid m e s" if "push_failure s = Some e" for e
    using assms that by (rule connection_ack_push_fails)
  have opens: "?H =
           (if shouldUpdateSubscriptionsOnSettingsChange s \<and> adopted_settings valid m s \<noteq> []
            then updateSubscriptionsFromSettings now (acknowledged valid now m w s)
            else acknowledged valid now m w s) \<and>
         settings ?H = adopted_settings valid m s \<and>
         tpaConfig ?H = adopted_config valid m s \<and>
         (\<exists>rest. emitted ?H = emitted s @ (Connected, PSettings (adopted_settings valid m s)) # rest) \<and>
         (\<exists>frame rest.
            ws ?H = Some (w\<lparr>sent := sent w @ frame # rest\<rparr>) \<and>
            get_prop frame ''subscriptions'' =
              Inr (JArr (map (\<lambda>t. JEnum (StreamMember t)) (subscriptions s)))) \<and>
         (\<forall>h subs. shouldUpdateSubscriptionsOnSettingsChange s \<and> adopted_settings valid m s \<noteq> [] \<and>
              subscriptionSettingsHandler s = Some h \<and> h (adopted_settings valid m s) = Inr subs \<longrightarrow>
              subscriptions ?H = fold set_add subs []) \<and>
         (\<not> (shouldUpdateSubscriptionsOnSettingsChange s \<and> adopted_settings valid m s \<noteq> []) \<longrightarrow>
              subscriptions ?H = subscriptions s)"
    if "ws s = Some w \<and> readyState w = 1 \<and> send_failure w = None" for w
    using assms that by (intro connection_ack_on_open_channel) simp_all
  have general: "settings ?H = adopted_settings valid m s \<and>
         tpaConfig ?H = adopted_config valid m s \<and>
         (\<exists>rest. emitted ?H = emitted s @ (Connected, PSettings (adopted_settings valid m s)) # rest)"
  proof (cases "push_failure s")
    case None
    then obtain w where "ws s = Some w \<and> readyState w = 1 \<and> send_failure w = None"
      by (auto simp: push_failure_None)
    from opens [OF this] show ?thesis by blast
  next
    case (Some e)
    from fails [OF this] show ?thesis by (simp add: unacknowledged_def)
  qed
  have c5: "\<forall>e. push_failure s = Some e \<longrightarrow>
            ?H = unacknowledged valid m e s \<and> ws ?H = ws s \<and> subscriptions ?H = subscriptions s \<and>
            emitted ?H =
              emitted s @
                [(Connected, PSettings (adopted_settings valid m s)),
                 (Error, PError e),
                 (Error, PError (Txt ''Error processing message: '' # e))]"
    using fails by (simp add: unacknowledged_def)
  have c4: "\<forall>w. ws s = Some w \<and> readyState w = 1 \<and> send_failure w = None \<longrightarrow>
            ?H =
              (if shouldUpdateSubscriptionsOnSettingsChange s \<and> adopted_settings valid m s \<noteq> []
               then updateSubscriptionsFromSettings now (acknowledged valid now m w s)
               else acknowledged valid now m w s) \<and>
            (\<exists>frame rest.
               ws ?H = Some (w\<lparr>sent := sent w @ frame # rest\<rparr>) \<and>
               get_prop frame ''subscriptions'' =
                 Inr (JArr (map (\<lambda>t. JEnum (StreamMember t)) (subscriptions s)))) \<and>
            (\<forall>h subs. shouldUpdateSubscriptionsOnSettingsChange s \<and> adopted_settings valid m s \<noteq> [] \<and>
                 subscriptionSettingsHandler s = Some h \<and> h (adopted_settings valid m s) = Inr subs \<longrightarrow>
                 subscriptions ?H = fold set_add subs []) \<and>
            (\<not> (shouldUpdateSubscriptionsOnSettingsChange s \<and> adopted_settings valid m s \<noteq> []) \<longrightarrow>
                 subscriptions ?H = subscriptions s)"
    using opens by blast
  from general push_failure_None [of s] c4 c5 show ?thesis by blast
qed

theorem connection_ack_handled_witness:
  "settings (handleMessage (\<lambda>c. True) 3 (Message acknowledgment) listening_session) = [volume 5] \<and>
   emitted (handleMessage (\<lambda>c. True) 3 (Message acknowledgment) listening_session) =
     [(Connected, PSettings [volume 5])] \<and>
   subscriptions (handleMessage (\<lambda>c. True) 3 (Message acknowledgment) listening_session) = [TRANSCRIPTION] \<and>
   settings (handleMessage (\<lambda>c. True) 3 (Message configured_acknowledgment) listening_session) = [volume 1] \<and>
   tpaConfig (handleMessage (\<lambda>c. True) 3 (Message configured_acknowledgment) listening_session) =
     Some sample_tpa_config \<and>
   settings (handleMessage (\<lambda>c. False) 3 (Message configured_acknowledgment) listening_session) = [] \<and>
   tpaConfig (handleMessage (\<lambda>c. False) 3 (Message configured_acknowledgment) listening_session) = None \<and>
   emitted (handleMessage (\<lambda>c. True) 3 (Message acknowledgment) example_session) =
     [(Connected, PSettings [volume 5]),
      (Error, PError [Txt ''WebSocket connection not established'']),
      (Error, PError [Txt ''Error processing message: '', Txt ''WebSocket connection not established''])]"
proof -
  have 1: "msg_type acknowledgment = CONNECTION_ACK" "msg_type configured_acknowledgment = CONNECTION_ACK"
    by (simp_all add: acknowledgment_def configured_acknowledgment_def)
  have 2: "ws listening_session = Some open_channel \<and> readyState open_channel = 1 \<and>
           send_failure open_channel = None"
    by (simp add: listening_session_def open_channel_def)
  have l: "tpaConfig listening_session = None" "emitted listening_session = []"
    "subscriptions listening_session = [TRANSCRIPTION]"
    "\<not> shouldUpdateSubscriptionsOnSettingsChange listening_session"
    by (simp_all add: listening_session_def example_session_def new_TpaSession_def)
  have 4: "adopted_settings (\<lambda>c. True) acknowledgment listening_session = [volume 5]"
    by (simp add: adopted_settings_def carried_settings_def acknowledgment_def)
  have 5: "adopted_config (\<lambda>c. True) configured_acknowledgment listening_session = Some sample_tpa_config"
    "adopted_config (\<lambda>c. False) configured_acknowledgment listening_session = None"
    by (simp_all add: adopted_config_def configured_acknowledgment_def l)
  have d: "default_values sample_tpa_config = [volume 1]"
    by (simp add: default_values_def sample_tpa_config_def volume_def List.map_filter_simps)
  have 6: "adopted_settings (\<lambda>c. True) configured_acknowledgment listening_session = [volume 1]"
    "adopted_settings (\<lambda>c. False) configured_acknowledgment listening_session = []"
    by (simp_all add: adopted_settings_def 5 d) (simp_all add: carried_settings_def configured_acknowledgment_def)
  note A = connection_ack_handled [OF 1(1), of "\<lambda>c. True" 3 listening_session]
  from A [THEN conjunct2, THEN conjunct2, THEN conjunct2, THEN conjunct2, THEN conjunct1,
          rule_format, OF 2, THEN conjunct1] l(4)
  have "handleMessage (\<lambda>c. True) 3 (Message acknowledgment) listening_session =
          acknowledged (\<lambda>c. True) 3 acknowledgment open_channel listening_session"
    by simp
  moreover have "settings (acknowledged (\<lambda>c. True) 3 acknowledgment open_channel listening_session) =
      [volume 5]"
    "emitted (acknowledged (\<lambda>c. True) 3 acknowledgment open_channel listening_session) =
      [(Connected, PSettings [volume 5])]"
    "subscriptions (acknowledged (\<lambda>c. True) 3 acknowledgment open_channel listening_session) =
      [TRANSCRIPTION]"
    by (simp_all add: acknowledged_def Let_def 4 l)
  ultimately have a: "settings (handleMessage (\<lambda>c. True) 3 (Message acknowledgment) listening_session) = [volume 5]"
    "emitted (handleMessage (\<lambda>c. True) 3 (Message acknowledgment) listening_session) =
       [(Connected, PSettings [volume 5])]"
    "subscriptions (handleMessage (\<lambda>c. True) 3 (Message acknowledgment) listening_session) = [TRANSCRIPTION]"
    by simp_all
  note B = connection_ack_handled [OF 1(2), of "\<lambda>c. True" 3 listening_session]
  from B [THEN conjunct1] B [THEN conjunct2, THEN conjunct1] 5 6 have b: "settings (handleMessage (\<lambda>c. True) 3 (Message configured_acknowledgment) listening_session) = [volume 1]"
    "tpaConfig (handleMessage (\<lambda>c. True) 3 (Message configured_acknowledgment) listening_session) =
       Some sample_tpa_config"
    by simp_all
  note C = connection_ack_handled [OF 1(2), of "\<lambda>c. False" 3 listening_session]
  from C [THEN conjunct1] C [THEN conjunct2, THEN conjunct1] 5 6 have c: "settings (handleMessage (\<lambda>c. False) 3 (Message configured_acknowledgment) listening_session) = []"
    "tpaConfig (handleMessage (\<lambda>c. False) 3 (Message configured_acknowledgment) listening_session) = None"
    by simp_all
  have e: "push_failure example_session = Some [Txt ''WebSocket connection not established'']"
    "emitted example_session = []"
    "adopted_settings (\<lambda>c. True) acknowledgment example_session = [volume 5]"
    by (simp_all add: push_failure_def example_session_def new_TpaSession_def adopted_settings_def
          carried_settings_def acknowledgment_def)
  note D = connection_ack_handled [OF 1(1), of "\<lambda>c. True" 3 example_session]
  from D [THEN conjunct2, THEN conjunct2, THEN conjunct2, THEN conjunct2, THEN conjunct2,
          rule_format, OF e(1), THEN conjunct2, THEN conjunct2, THEN conjunct2] e(2) e(3)
  have "emitted (handleMessage (\<lambda>c. True) 3 (Message acknowledgment) example_session) =
     [(Connected, PSettings [volume 5]),
      (Error, PError [Txt ''WebSocket connection not established'']),
      (Error, PError [Txt ''Error processing message: '', Txt ''WebSocket connection not established''])]"
    by simp
  with a b c show ?thesis by simp
qed



text \<open>
  Claim C5 as stated fails while the channel is not open: the acknowledgment is adopted
  and \<open>connected\<close> is emitted, but no subscription list is sent, and the subscriptions are
  not recomputed although settings-driven subscriptions are on and the settings are not
  empty (the handler would ask for the audio chunks).
\<close>

theorem connection_ack_not_open_counterexample:
  "ws (handleMessage (\<lambda>c. True) 3 (Message acknowledgment)
         (watching_session\<lparr>ws := Some connecting_channel\<rparr>)) = Some connecting_channel \<and>
   sent connecting_channel = [] \<and>
   settings (handleMessage (\<lambda>c. True) 3 (Message acknowledgment)
         (watching_session\<lparr>ws := Some connecting_channel\<rparr>)) = [volume 5] \<and>
   by_volume [volume 5] = Inr [AUDIO_CHUNK] \<and>
   subscriptions (handleMessage (\<lambda>c. True) 3 (Message acknowledgment)
         (watching_session\<lparr>ws := Some connecting_channel\<rparr>)) = [TRANSCRIPTION] \<and>
   emitted (handleMessage (\<lambda>c. True) 3 (Message acknowledgment)
         (watching_session\<lparr>ws := Some connecting_channel\<rparr>)) =
     [(Connected, PSettings [volume 5]),
      (Error, PError [Txt ''WebSocket not connected (current state: CONNECTING)'']),
      (Error, PError [Txt ''Error processing message: '',
                      Txt ''WebSocket not connected (current state: CONNECTING)''])]"
  by (simp add: handleMessage_def dispatch_message_def isTpaConnectionAck_def
        handle_connection_ack_def updateSubscriptions_def send_def send_try_def stateName_def
        events_emit_def Let_def acknowledgment_def watching_session_def listening_session_def
        example_session_def new_TpaSession_def connecting_channel_def by_volume_def value_in_def
        volume_def)




section \<open>Properties of the reconnection\<close>

lemma connect_cases:
  "\<exists>s2. reconnectAttempts s2 = reconnectAttempts s \<and> config s2 = config s \<and> sessionId s2 = sid \<and>
        (connect network sid s = (Inl [Txt ''WebSocket URL is required''], s2) \<or>
         connect network sid s = network s2)"
proof -
  let ?s2 = "(case ws s of
                  None \<Rightarrow> s\<lparr>sessionId := sid\<rparr>
                | Some w \<Rightarrow> if readyState w \<noteq> 3 then s\<lparr>sessionId := sid, ws := None\<rparr>
                            else s\<lparr>sessionId := sid\<rparr>)"
  have f: "reconnectAttempts ?s2 = reconnectAttempts s" "config ?s2 = config s" "sessionId ?s2 = sid"
    by (simp_all split: option.splits)
  have c: "connect network sid s =
             (if or_else (given (augmentOSWebsocketUrl (config ?s2))) [] = []
              then (Inl [Txt ''WebSocket URL is required''], ?s2) else network ?s2)"
    by (simp add: connect_def Let_def split: option.splits)
  show ?thesis
    by (rule exI [of _ ?s2]) (simp only: f c, simp)
qed

lemma connect_rejecting:
  assumes "rejecting network"
  shows "(\<exists>e. fst (connect network (sessionId s) s) = Inl e) \<and>
         reconnectAttempts (snd (connect network (sessionId s) s)) = reconnectAttempts s \<and>
         config (snd (connect network (sessionId s) s)) = config s \<and>
         sessionId (snd (connect network (sessionId s) s)) = sessionId s"
proof -
  from connect_cases [of s "sessionId s" network] obtain s2 where
    f: "reconnectAttempts s2 = reconnectAttempts s" "config s2 = config s" "sessionId s2 = sessionId s"
    and c: "connect network (sessionId s) s = (Inl [Txt ''WebSocket URL is required''], s2) \<or>
            connect network (sessionId s) s = network s2"
    by blast
  from assms have n: "(\<exists>e. fst (network s2) = Inl e) \<and>
          reconnectAttempts (snd (network s2)) = reconnectAttempts s2 \<and>
          config (snd (network s2)) = config s2 \<and>
          sessionId (snd (network s2)) = sessionId s2"
    unfolding rejecting_def by blast
  from c show ?thesis
  proof
    assume "connect network (sessionId s) s = (Inl [Txt ''WebSocket URL is required''], s2)"
    with f show ?thesis by simp
  next
    assume "connect network (sessionId s) s = network s2"
    with f n show ?thesis by simp
  qed
qed

lemma reconnect_resume_rejecting:
  assumes "rejecting network"
  shows "reconnectAttempts (reconnect_resume network s) = reconnectAttempts s \<and>
         config (reconnect_resume network s) = config s \<and>
         sessionId (reconnect_resume network s) = sessionId s \<and>
         emitted (reconnect_resume network s) =
           emitted (snd (connect network (sessionId s) s)) @ [(Error, PError [Txt ''Reconnection failed''])]"
proof -
  obtain r s' where c: "connect network (sessionId s) s = (r, s')"
    by (cases "connect network (sessionId s) s")
  from connect_rejecting [OF assms, of s] c obtain e where "r = Inl e"
    and "reconnectAttempts s' = reconnectAttempts s" "config s' = config s" "sessionId s' = sessionId s"
    by auto
  with c show ?thesis by (simp add: reconnect_resume_def events_emit_def)
qed

lemma reconnect_resume_resolved:
  assumes "connect network (sessionId s) s = (Inr (), s')"
  shows "reconnect_resume network s = s'\<lparr>reconnectAttempts := 0\<rparr>"
  using assms by (simp add: reconnect_resume_def)

lemma handleReconnection_refused:
  "reconnect_refused s \<Longrightarrow> handleReconnection network s = (None, s)"
  by (simp add: handleReconnection_def reconnect_start_def)

lemma maxAttempts_maximum: "maxAttempts c = maximum_attempts c"
  by (cases "maxReconnectAttempts c") (simp_all add: maxAttempts_def maximum_attempts_def number_or_def)

lemma baseDelay_base: "baseDelay c = base_delay c"
  by (cases "reconnectDelay c") (simp_all add: baseDelay_def base_delay_def number_or_def)

lemma handleReconnection_attempt:
  "\<not> reconnect_refused s \<Longrightarrow>
   handleReconnection network s =
     (Some (base_delay (config s) * 2 ^ reconnectAttempts s),
      reconnect_resume network (s\<lparr>reconnectAttempts := reconnectAttempts s + 1\<rparr>))"
  by (simp add: handleReconnection_def reconnect_start_def baseDelay_base)

lemma reconnect_refused_iff:
  "reconnectable s \<Longrightarrow> reconnect_refused s \<longleftrightarrow> maximum_attempts (config s) \<le> int (reconnectAttempts s)"
  by (auto simp: reconnectable_def reconnect_refused_def or_else_def maxAttempts_maximum
           split: option.splits)

lemma expected_delays_exhausted:
  "maximum_attempts c \<le> int a \<Longrightarrow> expected_delays c a n = replicate n None"
  by (induction n arbitrary: a) auto

lemma expected_delays_nth:
  "k < n \<Longrightarrow>
   expected_delays c a n ! k =
     (if int (a + k) < maximum_attempts c then Some (base_delay c * 2 ^ (a + k)) else None)"
proof (induction n arbitrary: a k)
  case 0
  then show ?case by simp
next
  case (Suc n)
  show ?case
  proof (cases k)
    case 0
    then show ?thesis by simp
  next
    case (Suc j)
    with Suc.prems have "j < n" by simp
    from Suc.IH [OF this, of "Suc a"] Suc show ?thesis by simp
  qed
qed

lemma closes_Suc:
  "fst (closes network (Suc n) s) =
     fst (handleReconnection network s) # fst (closes network n (snd (handleReconnection network s)))"
  by (simp split: prod.splits)

lemma closes_rejecting:
  assumes "rejecting network"
  shows "reconnectable s \<Longrightarrow>
         fst (closes network n s) = expected_delays (config s) (reconnectAttempts s) n"
proof (induction n arbitrary: s)
  case 0
  then show ?case by simp
next
  case (Suc n)
  let ?a = "reconnectAttempts s"
  show ?case
  proof (cases "reconnect_refused s")
    case True
    with Suc.prems have full: "maximum_attempts (config s) \<le> int ?a" by (simp add: reconnect_refused_iff)
    from True have h: "handleReconnection network s = (None, s)" by (rule handleReconnection_refused)
    from full have "expected_delays (config s) ?a n = expected_delays (config s) (Suc ?a) n"
      by (simp add: expected_delays_exhausted)
    with Suc.IH [OF Suc.prems]
    have "fst (closes network n s) = expected_delays (config s) (Suc ?a) n" by simp
    with h full show ?thesis
      by (simp only: closes_Suc) simp
  next
    case False
    with Suc.prems have room: "int ?a < maximum_attempts (config s)" by (simp add: reconnect_refused_iff)
    let ?s1 = "reconnect_resume network (s\<lparr>reconnectAttempts := ?a + 1\<rparr>)"
    from False have h: "handleReconnection network s = (Some (base_delay (config s) * 2 ^ ?a), ?s1)"
      by (rule handleReconnection_attempt)
    from reconnect_resume_rejecting [OF assms, of "s\<lparr>reconnectAttempts := ?a + 1\<rparr>"]
    have f: "reconnectAttempts ?s1 = Suc ?a" "config ?s1 = config s" "sessionId ?s1 = sessionId s"
      by simp_all
    with Suc.prems have "reconnectable ?s1" by (simp add: reconnectable_def)
    from Suc.IH [OF this] f
    have "fst (closes network n ?s1) = expected_delays (config s) (Suc ?a) n" by simp
    with h room show ?thesis
      by (simp only: closes_Suc) simp
  qed
qed

lemma given_iff: "given p = Some x \<longleftrightarrow> p = Given x"
  by (cases p) auto

lemma reconnect_refused_words:
  "reconnect_refused s \<longleftrightarrow>
     autoReconnect (config s) \<noteq> Given True \<or> sessionId s = None \<or> sessionId s = Some [] \<or>
     maximum_attempts (config s) \<le> int (reconnectAttempts s)"
  by (auto simp: reconnect_refused_def or_else_def maxAttempts_maximum given_iff split: option.splits)

text \<open>
  A URL that the caller gives as \<open>undefined\<close> overrides the default of the constructor,
  and \<open>connect\<close> rejects before anything is requested.
\<close>

lemma undefined_url_is_required:
  "augmentOSWebsocketUrl c = GivenUndefined \<Longrightarrow>
   fst (connect network sid (new_TpaSession c)) = Inl [Txt ''WebSocket URL is required'']"
  by (simp add: connect_def new_TpaSession_def with_defaults_def or_else_def Let_def)

lemma constructor_defaults:
  "maximum_attempts (config (new_TpaSession c)) = maximum_attempts c \<and>
   base_delay (config (new_TpaSession c)) = base_delay c"
  by (cases "maxReconnectAttempts c"; cases "reconnectDelay c")
     (simp_all add: new_TpaSession_def with_defaults_def maximum_attempts_def base_delay_def)

text \<open>
  Claim C4, as the code has it. \<open>handleReconnection\<close> does nothing when auto-reconnect is
  off, when no session id is set (or it is the empty string) or when the counter has
  reached the maximum: the configured \<open>maxReconnectAttempts\<close>, or 5 where none or zero is
  configured. Otherwise it waits the base delay (the configured \<open>reconnectDelay\<close>, or 1000
  where none or zero is configured) times two to the power of the counter, has
  incremented the counter before it waits, and then calls \<open>connect\<close> with the session id.
  With every attempt failing, attempt \<open>N\<close> waits the base delay times \<open>2 ^ (N - 1)\<close> and no
  attempt follows the maximum; a failed attempt leaves the counter alone and a successful
  one sets it to zero. The constructor leaves the maximum and the base delay as they are
  configured.
\<close>

theorem reconnection_backoff:
  "(reconnect_refused s \<longleftrightarrow>
      autoReconnect (config s) \<noteq> Given True \<or> sessionId s = None \<or> sessionId s = Some [] \<or>
      maximum_attempts (config s) \<le> int (reconnectAttempts s)) \<and>
   maximum_attempts (config (new_TpaSession c)) = maximum_attempts c \<and>
   base_delay (config (new_TpaSession c)) = base_delay c \<and>
   (reconnect_refused s \<longrightarrow> handleReconnection network s = (None, s)) \<and>
   (\<not> reconnect_refused s \<longrightarrow>
      reconnect_start s =
        Some (base_delay (config s) * 2 ^ reconnectAttempts s,
              s\<lparr>reconnectAttempts := reconnectAttempts s + 1\<rparr>) \<and>
      handleReconnection network s =
        (Some (base_delay (config s) * 2 ^ reconnectAttempts s),
         case connect network (sessionId s) (s\<lparr>reconnectAttempts := reconnectAttempts s + 1\<rparr>) of
           (Inl e, s') \<Rightarrow> events_emit Error (PError [Txt ''Reconnection failed'']) s'
         | (Inr u, s') \<Rightarrow> s'\<lparr>reconnectAttempts := 0\<rparr>)) \<and>
   (rejecting network \<and> reconnectable s \<and> reconnectAttempts s = 0 \<longrightarrow>
      (\<forall>N. 1 \<le> N \<and> N \<le> n \<longrightarrow>
         fst (closes network n s) ! (N - 1) =
           (if int N \<le> maximum_attempts (config s)
            then Some (base_delay (config s) * 2 ^ (N - 1)) else None))) \<and>
   (rejecting network \<longrightarrow> reconnectAttempts (reconnect_resume network s) = reconnectAttempts s) \<and>
   (\<forall>s'. connect network (sessionId s) s = (Inr (), s') \<longrightarrow>
      reconnectAttempts (reconnect_resume network s) = 0)"
proof (intro conjI impI allI)
  show "reconnect_refused s \<longleftrightarrow>
      autoReconnect (config s) \<noteq> Given True \<or> sessionId s = None \<or> sessionId s = Some [] \<or>
      maximum_attempts (config s) \<le> int (reconnectAttempts s)"
    by (rule reconnect_refused_words)
next
  show "maximum_attempts (config (new_TpaSession c)) = maximum_attempts c"
    by (simp add: constructor_defaults)
next
  show "base_delay (config (new_TpaSession c)) = base_delay c"
    by (simp add: constructor_defaults)
next
  assume "reconnect_refused s"
  then show "handleReconnection network s = (None, s)" by (rule handleReconnection_refused)
next
  assume "\<not> reconnect_refused s"
  then show "reconnect_start s =
        Some (base_delay (config s) * 2 ^ reconnectAttempts s,
              s\<lparr>reconnectAttempts := reconnectAttempts s + 1\<rparr>)"
    by (simp add: reconnect_start_def baseDelay_base)
next
  assume "\<not> reconnect_refused s"
  then show "handleReconnection network s =
        (Some (base_delay (config s) * 2 ^ reconnectAttempts s),
         case connect network (sessionId s) (s\<lparr>reconnectAttempts := reconnectAttempts s + 1\<rparr>) of
           (Inl e, s') \<Rightarrow> events_emit Error (PError [Txt ''Reconnection failed'']) s'
         | (Inr u, s') \<Rightarrow> s'\<lparr>reconnectAttempts := 0\<rparr>)"
    by (simp add: handleReconnection_attempt reconnect_resume_def split: prod.splits sum.splits)
next
  fix N
  assume a: "rejecting network \<and> reconnectable s \<and> reconnectAttempts s = 0" and N: "1 \<le> N \<and> N \<le> n"
  then have "fst (closes network n s) = expected_delays (config s) 0 n"
    using closes_rejecting [of network s n] by simp
  moreover from N have "N - 1 < n" by arith
  ultimately have "fst (closes network n s) ! (N - 1) =
      (if int (0 + (N - 1)) < maximum_attempts (config s)
       then Some (base_delay (config s) * 2 ^ (0 + (N - 1))) else None)"
    by (simp only: expected_delays_nth)
  moreover from N have "int (0 + (N - 1)) < maximum_attempts (config s) \<longleftrightarrow> int N \<le> maximum_attempts (config s)"
    by (cases N) auto
  ultimately show "fst (closes network n s) ! (N - 1) =
           (if int N \<le> maximum_attempts (config s)
            then Some (base_delay (config s) * 2 ^ (N - 1)) else None)"
    by simp
next
  assume "rejecting network"
  then show "reconnectAttempts (reconnect_resume network s) = reconnectAttempts s"
    by (simp add: reconnect_resume_rejecting)
next
  fix s'
  assume "connect network (sessionId s) s = (Inr (), s')"
  then show "reconnectAttempts (reconnect_resume network s) = 0"
    by (simp add: reconnect_resume_resolved)
qed

theorem reconnection_backoff_witness:
  "fst (closes unreachable 7 waiting_session) ! 0 = Some 1000 \<and>
   fst (closes unreachable 7 waiting_session) ! 2 = Some 4000 \<and>
   fst (closes unreachable 7 waiting_session) ! 4 = Some 16000 \<and>
   fst (closes unreachable 7 waiting_session) ! 5 = None \<and>
   fst (closes unreachable 5 hasty_session) ! 0 = Some 500 \<and>
   fst (closes unreachable 5 hasty_session) ! 2 = Some 2000 \<and>
   fst (closes unreachable 5 hasty_session) ! 3 = None \<and>
   handleReconnection unreachable (waiting_session\<lparr>reconnectAttempts := 5\<rparr>) =
     (None, waiting_session\<lparr>reconnectAttempts := 5\<rparr>)"
proof -
  have r: "rejecting unreachable" by (simp add: rejecting_def unreachable_def)
  have c: "config waiting_session = with_defaults sample_config" "sessionId waiting_session = Some ''session_123''"
    "reconnectAttempts waiting_session = 0"
    by (simp_all add: waiting_session_def example_session_def new_TpaSession_def)
  have m: "maximum_attempts (with_defaults sample_config) = 5" "base_delay (with_defaults sample_config) = 1000"
    "autoReconnect (with_defaults sample_config) = Given True"
    by (simp_all add: maximum_attempts_def base_delay_def with_defaults_def sample_config_def)
  from c m have a: "reconnectable waiting_session" by (simp add: reconnectable_def)
  have c': "sessionId hasty_session = Some ''session_123''" "reconnectAttempts hasty_session = 0"
    "maximum_attempts (config hasty_session) = 3" "base_delay (config hasty_session) = 500"
    "autoReconnect (config hasty_session) = Given True"
    by (simp_all add: hasty_session_def new_TpaSession_def maximum_attempts_def base_delay_def
          with_defaults_def sample_config_def)
  then have a': "reconnectable hasty_session" by (simp add: reconnectable_def)
  note T = reconnection_backoff [of waiting_session sample_config unreachable 7]
  from T r a c have d: "\<forall>N. 1 \<le> N \<and> N \<le> 7 \<longrightarrow>
         fst (closes unreachable 7 waiting_session) ! (N - 1) =
           (if int N \<le> maximum_attempts (config waiting_session)
            then Some (base_delay (config waiting_session) * 2 ^ (N - 1)) else None)"
    by blast
  from d [rule_format, of 1] d [rule_format, of 3] d [rule_format, of 5] d [rule_format, of 6] c m
  have "fst (closes unreachable 7 waiting_session) ! 0 = Some 1000"
    "fst (closes unreachable 7 waiting_session) ! 2 = Some 4000"
    "fst (closes unreachable 7 waiting_session) ! 4 = Some 16000"
    "fst (closes unreachable 7 waiting_session) ! 5 = None"
    by simp_all
  moreover
  note T' = reconnection_backoff [of hasty_session sample_config unreachable 5]
  from T' r a' c' have d': "\<forall>N. 1 \<le> N \<and> N \<le> 5 \<longrightarrow>
         fst (closes unreachable 5 hasty_session) ! (N - 1) =
           (if int N \<le> maximum_attempts (config hasty_session)
            then Some (base_delay (config hasty_session) * 2 ^ (N - 1)) else None)"
    by blast
  from d' [rule_format, of 1] d' [rule_format, of 3] d' [rule_format, of 4] c'
  have "fst (closes unreachable 5 hasty_session) ! 0 = Some 500"
    "fst (closes unreachable 5 hasty_session) ! 2 = Some 2000"
    "fst (closes unreachable 5 hasty_session) ! 3 = None"
    by simp_all
  moreover from c m have "reconnect_refused (waiting_session\<lparr>reconnectAttempts := 5\<rparr>)"
    by (simp add: reconnect_refused_def maxAttempts_maximum)
  with reconnection_backoff [of "waiting_session\<lparr>reconnectAttempts := 5\<rparr>" sample_config unreachable 7]
  have "handleReconnection unreachable (waiting_session\<lparr>reconnectAttempts := 5\<rparr>) =
     (None, waiting_session\<lparr>reconnectAttempts := 5\<rparr>)"
    by blast
  ultimately show ?thesis by simp
qed

text \<open>
  Claim C4 as stated fails for a configured maximum of zero: the counter of a new session
  has reached it, and yet the routine waits 1000 and tries to connect.
\<close>

theorem reconnection_zero_maximum_counterexample:
  "maxReconnectAttempts (config unhurried_session) = Given 0 \<and>
   reconnectAttempts unhurried_session = 0 \<and>
   fst (handleReconnection unreachable unhurried_session) = Some 1000 \<and>
   reconnectAttempts (snd (handleReconnection unreachable unhurried_session)) = 1 \<and>
   emitted (snd (handleReconnection unreachable unhurried_session)) =
     [(Error, PError [Txt ''Reconnection failed''])]"
  by (simp add: unhurried_session_def new_TpaSession_def with_defaults_def sample_config_def
        handleReconnection_def reconnect_start_def reconnect_refused_def maxAttempts_def
        baseDelay_def number_or_def or_else_def reconnect_resume_def connect_def Let_def
        unreachable_def events_emit_def)

section \<open>Properties of addHandler\<close>

lemma subscribe_calls_append:
  "subscribe_calls t (xs @ ys) = subscribe_calls t xs + subscribe_calls t ys"
  by (simp add: subscribe_calls_def)

lemma add_member_not_empty: "add_member h hs \<noteq> []"
  by (simp add: add_member_def) (cases hs; simp)

text \<open>
  Claim C7. Registering a handler for a stream type that has no handler registered calls
  the \<open>subscribe\<close> callback exactly once (the callback acts once on the state of its
  owner); registering a handler while one is registered calls it not at all. After a
  registration that returned, a handler is registered.
\<close>

theorem addHandler_subscribes_once:
  "trace (fst (snd (addHandler sub t h (em, w)))) =
     trace em @ (if registered t em = [] then [Subscribed t] else []) \<and>
   subscribe_calls t (trace (fst (snd (addHandler sub t h (em, w))))) =
     subscribe_calls t (trace em) + (if registered t em = [] then 1 else 0) \<and>
   snd (snd (addHandler sub t h (em, w))) = (if registered t em = [] then snd (sub t w) else w) \<and>
   (registered t em \<noteq> [] \<longrightarrow> fst (addHandler sub t h (em, w)) = Inr ()) \<and>
   (fst (addHandler sub t h (em, w)) = Inr () \<longrightarrow>
      registered t (fst (snd (addHandler sub t h (em, w)))) = add_member h (registered t em) \<and>
      registered t (fst (snd (addHandler sub t h (em, w)))) \<noteq> [])"
proof (cases "registered t em = []")
  case True
  then have hs: "(case handlers em (Stream t) of None \<Rightarrow> [] | Some hs \<Rightarrow> hs) = []"
    by (simp add: registered_def)
  obtain r w' where s: "sub t w = (r, w')" by (cases "sub t w")
  show ?thesis
  proof (cases r)
    case (Inl e)
    with True s show ?thesis
      by (simp add: addHandler_def hs logged_def subscribe_calls_def)
  next
    case (Inr u)
    have "registered t (logged (Subscribed t) (em\<lparr>handlers := (handlers em)(Stream t \<mapsto> [])\<rparr>)
            \<lparr>handlers := (handlers (logged (Subscribed t) (em\<lparr>handlers := (handlers em)(Stream t \<mapsto> [])\<rparr>)))
               (Stream t \<mapsto> add_member h [])\<rparr>) = add_member h []"
      by (simp add: registered_def)
    with Inr True s show ?thesis
      by (simp add: addHandler_def hs logged_def subscribe_calls_def add_member_not_empty)
  qed
next
  case False
  then have hs: "(case handlers em (Stream t) of None \<Rightarrow> [] | Some hs \<Rightarrow> hs) = registered t em"
    by (simp add: registered_def)
  have "registered t (em\<lparr>handlers := (handlers em)(Stream t \<mapsto> add_member h (registered t em))\<rparr>) =
          add_member h (registered t em)"
    by (simp add: registered_def)
  with False show ?thesis
    by (simp add: addHandler_def hs add_member_not_empty)
qed

theorem addHandler_subscribes_once_witness:
  "trace (fst (snd first_registration)) = [Subscribed TRANSCRIPTION] \<and>
   trace (fst (snd second_registration)) = [Subscribed TRANSCRIPTION] \<and>
   subscriptions (snd (snd second_registration)) = [TRANSCRIPTION]"
proof -
  have e: "registered TRANSCRIPTION new_EventManager = []" "trace new_EventManager = []"
    by (simp_all add: registered_def new_EventManager_def)
  have s: "subscribe 0 TRANSCRIPTION example_session =
             (Inr (), example_session\<lparr>subscriptions := [TRANSCRIPTION]\<rparr>)"
    by (simp add: subscribe_def example_session_def new_TpaSession_def is_open_def set_add_def)
  note T1 = addHandler_subscribes_once [of "subscribe 0" TRANSCRIPTION "(1, returning)"
      new_EventManager example_session, folded first_registration_def]
  have f: "fst first_registration = Inr ()"
    by (simp add: first_registration_def addHandler_def e [unfolded registered_def] s
        new_EventManager_def Let_def)
  from T1 e s f have 1: "trace (fst (snd first_registration)) = [Subscribed TRANSCRIPTION]"
    and 2: "snd (snd first_registration) = example_session\<lparr>subscriptions := [TRANSCRIPTION]\<rparr>"
    and 3: "registered TRANSCRIPTION (fst (snd first_registration)) \<noteq> []"
    by (simp_all add: add_member_not_empty)
  have p: "snd first_registration = (fst (snd first_registration), snd (snd first_registration))"
    by simp
  have "second_registration =
      addHandler (subscribe 0) TRANSCRIPTION (2, throwing)
        (fst (snd first_registration), snd (snd first_registration))"
    by (simp add: second_registration_def)
  with addHandler_subscribes_once [of "subscribe 0" TRANSCRIPTION "(2, throwing)"
      "fst (snd first_registration)" "snd (snd first_registration)"] 1 2 3
  have "trace (fst (snd second_registration)) = [Subscribed TRANSCRIPTION]"
    "snd (snd second_registration) = example_session\<lparr>subscriptions := [TRANSCRIPTION]\<rparr>"
    by simp_all
  with 1 show ?thesis by simp
qed

section \<open>Properties of onSettingChange\<close>

lemma settingsHandler_returns:
  assumes "\<And>v pv. h v pv = Returns"
  shows "settingsHandler k h (PSettings snapshot) prev =
           (case value_in k snapshot of
              None \<Rightarrow> (prev, [])
            | Some v \<Rightarrow> if v \<noteq> prev then (v, [(v, prev)]) else (prev, []))"
  using assms by (simp add: settingsHandler_def value_in_def split: option.splits)

lemma last_observed_snoc:
  "last_observed k (seen @ [snapshot]) =
     (case value_in k snapshot of None \<Rightarrow> last_observed k seen | Some v \<Rightarrow> v)"
  by (simp add: last_observed_def map_filter_app split: option.splits)

lemma observe_expected:
  assumes "\<And>v pv. h v pv = Returns"
  shows "observe k h snapshots (last_observed k seen) = expected_calls k seen snapshots"
proof (induction snapshots arbitrary: seen)
  case Nil
  then show ?case by simp
next
  case (Cons snapshot rest)
  show ?case
  proof (cases "value_in k snapshot")
    case None
    with Cons.IH [of "seen @ [snapshot]"] show ?thesis
      by (simp add: settingsHandler_returns [OF assms] last_observed_snoc)
  next
    case (Some v)
    with Cons.IH [of "seen @ [snapshot]"] show ?thesis
      by (auto simp: settingsHandler_returns [OF assms] last_observed_snoc)
  qed
qed

lemma changes_append: "changes c (xs @ ys) = changes c xs @ changes c ys"
  by (simp add: changes_def map_filter_app)

lemma changes_Changed: "changes c (map (\<lambda>(v, pv). Changed c v pv) calls) = calls"
  by (induction calls) (auto simp: changes_def)

lemma changes_other: "c' \<noteq> c \<Longrightarrow> changes c (map (\<lambda>(v, pv). Changed c' v pv) calls) = []"
  by (induction calls) (auto simp: changes_def List.map_filter_simps)

lemma run_listener_other:
  assumes "quiet l" and "listener_id l \<noteq> c"
  shows "\<exists>em'. run_listener l p em = (None, em') \<and> same_registrations em em' \<and>
               previousValue em' c = previousValue em c \<and> changes c (trace em') = changes c (trace em)"
proof (cases l)
  case (Listener i f)
  with assms have "f p = Returns" by simp
  with Listener show ?thesis
    by (simp add: same_registrations_def logged_def changes_def map_filter_app List.map_filter_simps)
next
  case (SettingsHandler c' k' h')
  with assms have "c' \<noteq> c" by simp
  with SettingsHandler show ?thesis
    by (auto simp: same_registrations_def changes_append changes_other split: prod.splits)
qed

lemma run_listeners_others:
  "others_calm c ls \<Longrightarrow>
   \<exists>em'. run_listeners ls p em = (None, em') \<and> same_registrations em em' \<and>
         previousValue em' c = previousValue em c \<and> changes c (trace em') = changes c (trace em)"
proof (induction ls arbitrary: em)
  case Nil
  then show ?case by (simp add: same_registrations_def)
next
  case (Cons l ls)
  then have "quiet l" "listener_id l \<noteq> c" and rest: "others_calm c ls"
    by (simp_all add: others_calm_def)
  from run_listener_other [OF this(1,2), of p em] obtain em1 where
    1: "run_listener l p em = (None, em1)" "same_registrations em em1"
    "previousValue em1 c = previousValue em c" "changes c (trace em1) = changes c (trace em)"
    by blast
  from Cons.IH [OF rest, of em1] obtain em2 where
    2: "run_listeners ls p em1 = (None, em2)" "same_registrations em1 em2"
    "previousValue em2 c = previousValue em1 c" "changes c (trace em2) = changes c (trace em1)"
    by blast
  from 1 2 show ?case
    by (auto simp: same_registrations_def)
qed

lemma run_listeners_append:
  "run_listeners (xs @ ys) p em =
     (case run_listeners xs p em of
        (Some e, em') \<Rightarrow> (Some e, em')
      | (None, em') \<Rightarrow> run_listeners ys p em')"
  by (induction xs arbitrary: em) (auto split: prod.splits option.splits)

lemma run_listeners_heard:
  assumes "heard_once c k h ls"
  shows "\<exists>em'. run_listeners ls p em = (None, em') \<and> same_registrations em em' \<and>
               previousValue em' c = fst (settingsHandler k h p (previousValue em c)) \<and>
               changes c (trace em') =
                 changes c (trace em) @ snd (settingsHandler k h p (previousValue em c))"
proof -
  from assms obtain before after where ls: "ls = before @ SettingsHandler c k h # after"
    and b: "others_calm c before" and a: "others_calm c after"
    by (auto simp: heard_once_def others_calm_def)
  from run_listeners_others [OF b, of p em] obtain em1 where
    1: "run_listeners before p em = (None, em1)" "same_registrations em em1"
    "previousValue em1 c = previousValue em c" "changes c (trace em1) = changes c (trace em)"
    by blast
  obtain prev' calls where st: "settingsHandler k h p (previousValue em c) = (prev', calls)"
    by (cases "settingsHandler k h p (previousValue em c)")
  let ?em2 = "em1\<lparr>previousValue := (previousValue em1)(c := prev'),
                  trace := trace em1 @ map (\<lambda>(v, pv). Changed c v pv) calls\<rparr>"
  from st 1(3) have 2: "run_listener (SettingsHandler c k h) p em1 = (None, ?em2)" by simp
  from run_listeners_others [OF a, of p ?em2] obtain em3 where
    3: "run_listeners after p ?em2 = (None, em3)" "same_registrations ?em2 em3"
    "previousValue em3 c = previousValue ?em2 c" "changes c (trace em3) = changes c (trace ?em2)"
    by blast
  have "run_listeners ls p em = (None, em3)"
    unfolding ls run_listeners_append 1(1) using 2 3(1) by simp
  moreover from 1(2) 3(2) have "same_registrations em em3" by (simp add: same_registrations_def)
  moreover from 3(3) have "previousValue em3 c = prev'" by simp
  moreover from 3(4) 1(4) have "changes c (trace em3) = changes c (trace em) @ calls"
    by (simp add: changes_append changes_Changed)
  ultimately show ?thesis using st by simp
qed

lemma watching_same: "watching c k h em \<Longrightarrow> same_registrations em em' \<Longrightarrow> watching c k h em'"
  by (simp add: watching_def same_registrations_def listeners_of_def)

lemma emit_watching:
  assumes "watching c k h em" and "ev = Connected \<or> ev = SettingsUpdate"
  shows "same_registrations em (emit ev p em) \<and>
         previousValue (emit ev p em) c = fst (settingsHandler k h p (previousValue em c)) \<and>
         changes c (trace (emit ev p em)) =
           changes c (trace em) @ snd (settingsHandler k h p (previousValue em c))"
proof -
  let ?em0 = "logged (Fired ev p) em"
  from assms have h: "heard_once c k h (listeners_of ev em)" and n: "handlers em ev = None"
    by (auto simp: watching_def)
  then have ne: "listeners_of ev em \<noteq> []" by (auto simp: heard_once_def)
  have l0: "listeners_of ev ?em0 = listeners_of ev em" by (simp add: listeners_of_def logged_def)
  from run_listeners_heard [OF h, of p ?em0] obtain em' where
    r: "run_listeners (listeners_of ev em) p ?em0 = (None, em')" "same_registrations ?em0 em'"
    "previousValue em' c = fst (settingsHandler k h p (previousValue ?em0 c))"
    "changes c (trace em') = changes c (trace ?em0) @ snd (settingsHandler k h p (previousValue ?em0 c))"
    by blast
  from ne r(1) have "emitter_emit ev p em = (None, em')"
    by (cases "listeners_of ev em") (simp_all add: emitter_emit_def)
  moreover from r(2) n have "handlers em' ev = None" by (simp add: same_registrations_def logged_def)
  ultimately have e: "emit ev p em = em'" by (simp add: emit_def emit_try_def)
  have p0: "previousValue ?em0 c = previousValue em c" "changes c (trace ?em0) = changes c (trace em)"
    by (simp_all add: logged_def changes_def map_filter_app List.map_filter_simps)
  from r(2) have "same_registrations em em'" by (simp add: same_registrations_def logged_def)
  with r(3,4) p0 show ?thesis unfolding e by simp
qed

lemma deliver_watching:
  "watching c k h em \<Longrightarrow> settings_events evs \<Longrightarrow>
   changes c (trace (deliver (map settings_event evs) em)) =
     changes c (trace em) @ observe k h (map snd evs) (previousValue em c)"
proof (induction evs arbitrary: em)
  case Nil
  then show ?case by (simp add: deliver_def)
next
  case (Cons x evs)
  obtain ev snapshot where x: "x = (ev, snapshot)" by (cases x)
  with Cons.prems have ev: "ev = Connected \<or> ev = SettingsUpdate" and rest: "settings_events evs"
    by (simp_all add: settings_events_def)
  obtain prev' calls where st: "settingsHandler k h (PSettings snapshot) (previousValue em c) = (prev', calls)"
    by (cases "settingsHandler k h (PSettings snapshot) (previousValue em c)")
  let ?em1 = "emit ev (PSettings snapshot) em"
  from emit_watching [OF Cons.prems(1) ev, of "PSettings snapshot"] st
  have e: "same_registrations em ?em1" "previousValue ?em1 c = prev'"
    "changes c (trace ?em1) = changes c (trace em) @ calls"
    by simp_all
  from Cons.prems(1) e(1) have w1: "watching c k h ?em1" by (rule watching_same)
  have d: "deliver (map settings_event (x # evs)) em = deliver (map settings_event evs) ?em1"
    by (simp add: deliver_def x settings_event_def)
  from Cons.IH [OF w1 rest] e st show ?case
    unfolding d by (simp add: x)
qed

lemma onSettingChange_watching:
  assumes "calm c em"
  shows "watching c k h (onSettingChange c k h em) \<and>
         previousValue (onSettingChange c k h em) c = VUndefined \<and>
         trace (onSettingChange c k h em) = trace em"
proof -
  have l: "listeners_of Connected (onSettingChange c k h em) = listeners_of Connected em @ [SettingsHandler c k h]"
    "listeners_of SettingsUpdate (onSettingChange c k h em) =
       listeners_of SettingsUpdate em @ [SettingsHandler c k h]"
    by (simp_all add: onSettingChange_def emitter_on_def listeners_of_def)
  from assms have "heard_once c k h (listeners_of Connected em @ [SettingsHandler c k h])"
    unfolding heard_once_def
    by (intro exI [of _ "listeners_of Connected em"] exI [of _ "[]"]) (simp add: calm_def)
  moreover from assms have "heard_once c k h (listeners_of SettingsUpdate em @ [SettingsHandler c k h])"
    unfolding heard_once_def
    by (intro exI [of _ "listeners_of SettingsUpdate em"] exI [of _ "[]"]) (simp add: calm_def)
  moreover from assms have "handlers (onSettingChange c k h em) Connected = None"
    "handlers (onSettingChange c k h em) SettingsUpdate = None"
    by (simp_all add: calm_def onSettingChange_def emitter_on_def)
  ultimately show ?thesis
    by (simp add: watching_def l) (simp add: onSettingChange_def emitter_on_def)
qed

lemma calm_new: "calm c new_EventManager"
  by (simp add: calm_def others_calm_def listeners_of_def new_EventManager_def)

lemma last_observed_Nil: "last_observed k [] = VUndefined"
  by (simp add: last_observed_def)

text \<open>
  One snapshot, for every callback: the callback is called when the snapshot has the key
  with a value other than the recorded one, and the value is recorded when the callback
  has returned.
\<close>

lemma observe_step:
  "observe k h (snapshot # rest) prev =
     (case value_in k snapshot of
        None \<Rightarrow> observe k h rest prev
      | Some v \<Rightarrow>
          if v = prev then observe k h rest prev
          else (v, prev) # observe k h rest (if h v prev = Returns then v else prev))"
  by (simp add: settingsHandler_def value_in_def split: option.splits outcome.splits)

text \<open>
  Claim C6, as far as it holds. Registered on a manager that is calm for it, the closure
  of \<open>onSettingChange\<close> is heard on both events; and in every manager where it is, the
  calls it makes on a sequence of snapshots are the same whether the snapshots arrive with
  \<open>connected\<close> or with \<open>settings_update\<close>. For a callback that returns normally they are
  the calls of the claim: one for each snapshot whose value of the key differs from the
  last observed value (\<open>undefined\<close> before the first), with the new and that last observed
  value; the first observed value \<open>v\<close> other than \<open>undefined\<close> gives the call
  \<open>(v, undefined)\<close>, and the same snapshot again gives no further call. For every
  callback, a snapshot that lacks the key or repeats the recorded value gives no call, and
  one with another value gives a call with that value and the recorded one; the value is
  recorded when the callback returns, and is not when the callback throws.
\<close>

theorem onSettingChange_fires_on_change:
  "(calm c em \<longrightarrow>
      watching c k h (onSettingChange c k h em) \<and>
      previousValue (onSettingChange c k h em) c = VUndefined \<and>
      trace (onSettingChange c k h em) = trace em) \<and>
   (watching c k h em \<and> settings_events evs \<longrightarrow>
      changes c (trace (deliver (map settings_event evs) em)) =
        changes c (trace em) @ observe k h (map snd evs) (previousValue em c)) \<and>
   ((\<forall>v pv. h v pv = Returns) \<longrightarrow>
      observe k h snapshots VUndefined = expected_calls k [] snapshots \<and>
      (\<forall>v. value_in k snapshot = Some v \<and> v \<noteq> VUndefined \<longrightarrow>
         observe k h [snapshot] VUndefined = [(v, VUndefined)] \<and>
         observe k h [snapshot, snapshot] VUndefined = [(v, VUndefined)])) \<and>
   (value_in k snapshot = None \<or> value_in k snapshot = Some prev \<longrightarrow>
      observe k h (snapshot # rest) prev = observe k h rest prev) \<and>
   (\<forall>v. value_in k snapshot = Some v \<and> v \<noteq> prev \<longrightarrow>
      (h v prev = Returns \<longrightarrow> observe k h (snapshot # rest) prev = (v, prev) # observe k h rest v) \<and>
      (h v prev \<noteq> Returns \<longrightarrow> observe k h (snapshot # rest) prev = (v, prev) # observe k h rest prev))"
proof (intro conjI impI allI)
  {
    assume "calm c em"
    from onSettingChange_watching [OF this, of k h]
    show "watching c k h (onSettingChange c k h em)"
      "previousValue (onSettingChange c k h em) c = VUndefined"
      "trace (onSettingChange c k h em) = trace em"
      by simp_all
  }
  {
    assume "watching c k h em \<and> settings_events evs"
    then show "changes c (trace (deliver (map settings_event evs) em)) =
            changes c (trace em) @ observe k h (map snd evs) (previousValue em c)"
      by (simp add: deliver_watching)
  }
  {
    assume "\<forall>v pv. h v pv = Returns"
    then have r: "\<And>v pv. h v pv = Returns" by simp
    from observe_expected [OF r, where k = k and snapshots = snapshots and seen = "[]"]
    show "observe k h snapshots VUndefined = expected_calls k [] snapshots"
      by (simp add: last_observed_Nil)
    fix v
    assume v: "value_in k snapshot = Some v \<and> v \<noteq> VUndefined"
    with r show "observe k h [snapshot] VUndefined = [(v, VUndefined)]"
      by (simp add: observe_step del: observe.simps(2))
    from v r show "observe k h [snapshot, snapshot] VUndefined = [(v, VUndefined)]"
      by (simp add: observe_step del: observe.simps(2))
  }
  {
    assume "value_in k snapshot = None \<or> value_in k snapshot = Some prev"
    then show "observe k h (snapshot # rest) prev = observe k h rest prev"
      by (auto simp: observe_step simp del: observe.simps(2))
  }
  {
    fix v
    assume v: "value_in k snapshot = Some v \<and> v \<noteq> prev"
    {
      assume "h v prev = Returns"
      with v show "observe k h (snapshot # rest) prev = (v, prev) # observe k h rest v"
        by (simp add: observe_step del: observe.simps(2))
    }
    {
      assume "h v prev \<noteq> Returns"
      with v show "observe k h (snapshot # rest) prev = (v, prev) # observe k h rest prev"
        by (simp add: observe_step del: observe.simps(2))
    }
  }
qed

theorem onSettingChange_fires_on_change_witness:
  "observe ''vol'' quiet_callback [[volume 5], [volume 5], [volume 7]] VUndefined =
     [(VNum 5, VUndefined), (VNum 7, VNum 5)] \<and>
   changes 1 (trace (deliver [(Connected, PSettings [volume 5]), (SettingsUpdate, PSettings [volume 5]),
                              (SettingsUpdate, PSettings [volume 7])]
                       (watched_manager 1 ''vol'' quiet_callback))) =
     [(VNum 5, VUndefined), (VNum 7, VNum 5)] \<and>
   changes 1 (trace (deliver [(Connected, PSettings [volume 5]), (SettingsUpdate, PSettings [volume 5]),
                              (SettingsUpdate, PSettings [volume 7])]
                       (onSettingChange 1 ''vol'' failing_callback busy_manager))) =
     [(VNum 5, VUndefined), (VNum 5, VUndefined), (VNum 7, VUndefined)]"
proof -
  let ?snapshots = "[[volume 5], [volume 5], [volume 7]]"
  let ?evs = "[(Connected, [volume 5]), (SettingsUpdate, [volume 5]), (SettingsUpdate, [volume 7])]"
  have q: "\<forall>v pv. quiet_callback v pv = Returns" by (simp add: quiet_callback_def)
  have f: "failing_callback v pv \<noteq> Returns" for v pv by (simp add: failing_callback_def)
  have v: "value_in ''vol'' [volume n] = Some (VNum n)" for n
    by (simp add: value_in_def volume_def)
  have x: "expected_calls ''vol'' [] ?snapshots = [(VNum 5, VUndefined), (VNum 7, VNum 5)]"
    by (simp add: v last_observed_def List.map_filter_simps)
  have e: "settings_events ?evs" by (simp add: settings_events_def)
  have n: "calm 1 new_EventManager"
    by (simp add: calm_def others_calm_def listeners_of_def new_EventManager_def)
  have b: "calm 1 busy_manager" "trace busy_manager = []"
    by (simp_all add: calm_def others_calm_def listeners_of_def busy_manager_def onSettingsUpdate_def
          onConnected_def emitter_on_def new_EventManager_def returning_def)
  note Q = onSettingChange_fires_on_change [where k = "''vol''" and h = quiet_callback
      and snapshots = ?snapshots and evs = ?evs and c = 1 and snapshot = "[volume 5]"
      and prev = VUndefined and rest = "[]"]
  from Q [THEN conjunct2, THEN conjunct2, THEN conjunct1, THEN mp, OF q, THEN conjunct1] x
  have 1: "observe ''vol'' quiet_callback ?snapshots VUndefined = [(VNum 5, VUndefined), (VNum 7, VNum 5)]"
    by simp
  from Q [where em = new_EventManager, THEN conjunct1, THEN mp, OF n]
  have w: "watching 1 ''vol'' quiet_callback (watched_manager 1 ''vol'' quiet_callback)"
    "previousValue (watched_manager 1 ''vol'' quiet_callback) 1 = VUndefined"
    "trace (watched_manager 1 ''vol'' quiet_callback) = []"
    by (simp_all add: watched_manager_def new_EventManager_def)
  from onSettingChange_fires_on_change [where k = "''vol''" and h = quiet_callback and evs = ?evs
      and c = 1 and em = "watched_manager 1 ''vol'' quiet_callback", THEN conjunct2, THEN conjunct1,
      THEN mp, OF conjI, OF w(1) e] w(2,3) 1
  have 2: "changes 1 (trace (deliver (map settings_event ?evs) (watched_manager 1 ''vol'' quiet_callback))) =
      [(VNum 5, VUndefined), (VNum 7, VNum 5)]"
    by (simp add: changes_def)
  note F = onSettingChange_fires_on_change [where k = "''vol''" and h = failing_callback and c = 1]
  note step = F [THEN conjunct2, THEN conjunct2, THEN conjunct2, THEN conjunct2, rule_format,
      THEN conjunct2, rule_format]
  have s1: "observe ''vol'' failing_callback [[volume 7]] VUndefined =
              (VNum 7, VUndefined) # observe ''vol'' failing_callback [] VUndefined"
    by (rule step) (simp_all add: v f)
  have s2: "observe ''vol'' failing_callback [[volume 5], [volume 7]] VUndefined =
              (VNum 5, VUndefined) # observe ''vol'' failing_callback [[volume 7]] VUndefined"
    by (rule step) (simp_all add: v f)
  have s3: "observe ''vol'' failing_callback ?snapshots VUndefined =
              (VNum 5, VUndefined) # observe ''vol'' failing_callback [[volume 5], [volume 7]] VUndefined"
    by (rule step) (simp_all add: v f)
  from F [where em = busy_manager, THEN conjunct1, THEN mp, OF b(1)] b(2)
  have w': "watching 1 ''vol'' failing_callback (onSettingChange 1 ''vol'' failing_callback busy_manager)"
    "previousValue (onSettingChange 1 ''vol'' failing_callback busy_manager) 1 = VUndefined"
    "trace (onSettingChange 1 ''vol'' failing_callback busy_manager) = []"
    by simp_all
  from F [where evs = ?evs and em = "onSettingChange 1 ''vol'' failing_callback busy_manager",
      THEN conjunct2, THEN conjunct1, THEN mp, OF conjI, OF w'(1) e] w'(2,3) s1 s2 s3
  have 3: "changes 1 (trace (deliver (map settings_event ?evs)
                                (onSettingChange 1 ''vol'' failing_callback busy_manager))) =
      [(VNum 5, VUndefined), (VNum 5, VUndefined), (VNum 7, VUndefined)]"
    by (simp add: changes_def)
  from 1 2 3 show ?thesis by (simp add: settings_event_def)
qed

text \<open>
  The calls of a callback that throws, against the calls that claim C6 expects: the
  snapshot that repeats the value calls the callback again, and a changed value is
  reported with a previous value that is not the last observed one.
\<close>

lemma onSettingChange_throwing_callback_repeats:
  "observe ''vol'' failing_callback [[volume 5], [volume 5]] VUndefined =
     [(VNum 5, VUndefined), (VNum 5, VUndefined)] \<and>
   expected_calls ''vol'' [] [[volume 5], [volume 5]] = [(VNum 5, VUndefined)] \<and>
   observe ''vol'' failing_callback [[volume 5], [volume 7]] VUndefined =
     [(VNum 5, VUndefined), (VNum 7, VUndefined)] \<and>
   expected_calls ''vol'' [] [[volume 5], [volume 7]] = [(VNum 5, VUndefined), (VNum 7, VNum 5)]"
  by (simp add: settingsHandler_def failing_callback_def volume_def value_in_def last_observed_def
        List.map_filter_simps)

text \<open>A first value that is \<open>undefined\<close> equals the initial \<open>previousValue\<close> and gives no call.\<close>

lemma undefined_first_value_is_silent:
  "observe ''vol'' quiet_callback [[\<lparr>key = ''vol'', setting_val = VUndefined, defaultValue = VUndefined\<rparr>]]
     VUndefined = []"
  by (simp add: settingsHandler_def)

section \<open>Properties of emit\<close>

lemma unguarded_manager_eq:
  "unguarded_manager =
     \<lparr>emitter = [], handlers = (\<lambda>ev. None)(Stream TRANSCRIPTION \<mapsto> [(1, throwing), (2, returning)]),
      previousValue = (\<lambda>c. VUndefined), trace = [Subscribed TRANSCRIPTION]\<rparr>"
proof -
  have s: "subscribe 0 TRANSCRIPTION example_session =
             (Inr (), example_session\<lparr>subscriptions := [TRANSCRIPTION]\<rparr>)"
    by (simp add: subscribe_def example_session_def new_TpaSession_def is_open_def set_add_def)
  have 1: "addHandler (subscribe 0) TRANSCRIPTION (1, throwing) (new_EventManager, example_session) =
      (Inr (), \<lparr>emitter = [], handlers = (\<lambda>ev. None)(Stream TRANSCRIPTION \<mapsto> [(1, throwing)]),
                previousValue = (\<lambda>c. VUndefined), trace = [Subscribed TRANSCRIPTION]\<rparr>,
       example_session\<lparr>subscriptions := [TRANSCRIPTION]\<rparr>)"
    by (simp add: addHandler_def new_EventManager_def s logged_def add_member_def Let_def)
  show ?thesis
    unfolding unguarded_manager_def unguarded_registration_def 1
    by (simp add: addHandler_def add_member_def Let_def)
qed

text \<open>
  Claim C2 does not hold of the code. With two handlers registered for transcriptions, the
  first of which throws, and no listener for \<open>error\<close>, \<open>emit\<close> invokes the first handler
  only: the report \<open>emitter.emit('error', ...)\<close> inside the loop throws for want of a
  listener, which ends the loop, and the outer \<open>catch\<close> fires \<open>error\<close> once more. The
  second handler is never invoked, and one throwing handler has produced two \<open>error\<close>
  events.
\<close>

theorem emit_unhandled_error_stops_dispatch:
  "map fst (registered TRANSCRIPTION unguarded_manager) = [1, 2] \<and>
   invoked (trace (emit (Stream TRANSCRIPTION) (PData (JObj [])) unguarded_manager)) = [1] \<and>
   fired (trace (emit (Stream TRANSCRIPTION) (PData (JObj [])) unguarded_manager)) =
     [(Stream TRANSCRIPTION, PData (JObj [])),
      (Error, PError (handler_error (Stream TRANSCRIPTION) [Txt ''boom''])),
      (Error, PError (emission_error (Stream TRANSCRIPTION)
                        (handler_error (Stream TRANSCRIPTION) [Txt ''boom''])))]"
  by (simp add: unguarded_manager_eq registered_def emit_def emit_try_def emitter_emit_def
      listeners_of_def logged_def throwing_def returning_def invoked_def fired_def)

text \<open>
  An \<open>error\<close> event that nobody hears and that carries no \<open>Error\<close> is thrown as an
  error that names the payload; \<open>emit\<close> swallows it.
\<close>

lemma unhandled_error_names_the_payload:
  "fst (emitter_emit Error (PString ''lost'') new_EventManager) =
     Some [Txt ''Unhandled error. ('', Inspected (PString ''lost''), Txt '')''] \<and>
   fired (trace (emit Error (PString ''lost'') new_EventManager)) = [(Error, PString ''lost'')]"
  by (simp add: emitter_emit_def emit_def emit_try_def listeners_of_def new_EventManager_def
        logged_def fired_def List.map_filter_simps)

text \<open>
  The listeners of a system event are called by the emitter, which has no \<open>try\<close> of its
  own for each: the first that throws ends the call, and the one registered after it is
  not called.
\<close>

lemma emit_throwing_listener_stops_dispatch:
  "map (listener_id \<circ> snd) (emitter guarded_manager) = [3, 1, 2] \<and>
   called (trace (emit Connected PUndefined guarded_manager)) = [1, 3] \<and>
   fired (trace (emit Connected PUndefined guarded_manager)) =
     [(Connected, PUndefined), (Error, PError (emission_error Connected [Txt ''boom'']))]"
  by (simp add: guarded_manager_def onConnected_def onError_def emitter_on_def new_EventManager_def
      emit_def emit_try_def emitter_emit_def listeners_of_def logged_def throwing_def returning_def
      called_def fired_def)

lemma invoked_append: "invoked (xs @ ys) = invoked xs @ invoked ys"
  by (simp add: invoked_def map_filter_app)

lemma invoked_Changed: "invoked (map (\<lambda>(v, pv). Changed c v pv) calls) = []"
  by (induction calls) (auto simp: invoked_def)

lemma logged_simps:
  "emitter (logged x em) = emitter em" "handlers (logged x em) = handlers em"
  "fired (trace (logged x em)) = fired (trace em) @ (case fired_of x of None \<Rightarrow> [] | Some y \<Rightarrow> [y])"
  "invoked (trace (logged x em)) = invoked (trace em) @ (case invoked_of x of None \<Rightarrow> [] | Some y \<Rightarrow> [y])"
  by (simp_all add: logged_def fired_def invoked_def map_filter_app split: option.splits)

lemma listeners_of_same: "emitter em' = emitter em \<Longrightarrow> listeners_of ev em' = listeners_of ev em"
  by (simp add: listeners_of_def)

lemma run_listener_quiet:
  assumes "quiet l"
  shows "\<exists>em'. run_listener l p em = (None, em') \<and> same_registrations em em' \<and>
               invoked (trace em') = invoked (trace em) \<and> fired (trace em') = fired (trace em)"
proof (cases l)
  case (Listener i f)
  with assms have "f p = Returns" by simp
  with Listener show ?thesis
    by (simp add: same_registrations_def logged_simps)
next
  case (SettingsHandler c k h)
  then show ?thesis
    by (auto simp: same_registrations_def invoked_append invoked_Changed fired_append fired_Changed
        split: prod.splits)
qed

lemma run_listeners_quiet:
  "\<forall>l \<in> set ls. quiet l \<Longrightarrow>
   \<exists>em'. run_listeners ls p em = (None, em') \<and> same_registrations em em' \<and>
         invoked (trace em') = invoked (trace em) \<and> fired (trace em') = fired (trace em)"
proof (induction ls arbitrary: em)
  case Nil
  then show ?case by (simp add: same_registrations_def)
next
  case (Cons l ls)
  then have "quiet l" by simp
  from run_listener_quiet [OF this, of p em] obtain em1 where
    1: "run_listener l p em = (None, em1)" "same_registrations em em1"
    "invoked (trace em1) = invoked (trace em)" "fired (trace em1) = fired (trace em)"
    by blast
  from Cons.prems have "\<forall>l \<in> set ls. quiet l" by simp
  from Cons.IH [OF this, of em1] obtain em2 where
    2: "run_listeners ls p em1 = (None, em2)" "same_registrations em1 em2"
    "invoked (trace em2) = invoked (trace em1)" "fired (trace em2) = fired (trace em1)"
    by blast
  from 1 2 show ?case
    by (auto simp: same_registrations_def)
qed

lemma emitter_emit_quiet:
  assumes "\<forall>l \<in> set (listeners_of ev em). quiet l" and "ev = Error \<longrightarrow> listeners_of ev em \<noteq> []"
  shows "\<exists>em'. emitter_emit ev p em = (None, em') \<and> same_registrations em em' \<and>
               invoked (trace em') = invoked (trace em) \<and>
               fired (trace em') = fired (trace em) @ [(ev, p)]"
proof (cases "listeners_of ev em")
  case Nil
  with assms show ?thesis
    by (auto simp: emitter_emit_def same_registrations_def logged_simps)
next
  case (Cons l ls)
  with assms have "\<forall>l \<in> set (l # ls). quiet l" by simp
  from run_listeners_quiet [OF this, of p "logged (Fired ev p) em"] obtain em' where
    "run_listeners (l # ls) p (logged (Fired ev p) em) = (None, em')"
    "same_registrations (logged (Fired ev p) em) em'"
    "invoked (trace em') = invoked (trace (logged (Fired ev p) em))"
    "fired (trace em') = fired (trace (logged (Fired ev p) em))"
    by blast
  with Cons show ?thesis
    by (simp add: emitter_emit_def same_registrations_def logged_simps)
qed

lemma errors_heard_same: "errors_heard em \<Longrightarrow> same_registrations em em' \<Longrightarrow> errors_heard em'"
  by (simp add: errors_heard_def same_registrations_def listeners_of_def)

lemma run_handlers_isolated:
  assumes "ev \<noteq> Error"
  shows "errors_heard em \<Longrightarrow>
         \<exists>em'. run_handlers ev hs p em = (None, em') \<and> same_registrations em em' \<and>
               invoked (trace em') = invoked (trace em) @ map fst hs \<and>
               fired (trace em') =
                 fired (trace em) @ map (\<lambda>e. (Error, PError (handler_error ev e))) (thrown hs p)"
proof (induction hs arbitrary: em)
  case Nil
  then show ?case by (simp add: same_registrations_def thrown_def)
next
  case (Cons h hs)
  obtain i f where h: "h = (i, f)" by (cases h)
  let ?em0 = "logged (Invoked i p) em"
  have s0: "same_registrations em ?em0" by (simp add: same_registrations_def logged_simps)
  with Cons.prems have h0: "errors_heard ?em0" by (rule errors_heard_same)
  show ?case
  proof (cases "f p")
    case Returns
    from Cons.IH [OF h0] obtain em' where
      r: "run_handlers ev hs p ?em0 = (None, em')" "same_registrations ?em0 em'"
      "invoked (trace em') = invoked (trace ?em0) @ map fst hs"
      "fired (trace em') =
         fired (trace ?em0) @ map (\<lambda>e. (Error, PError (handler_error ev e))) (thrown hs p)"
      by blast
    with h Returns s0 show ?thesis
      by (simp add: same_registrations_def logged_simps thrown_def thrown_by_def)
  next
    case (Throws e)
    from h0 have q: "\<forall>l \<in> set (listeners_of Error ?em0). quiet l"
      and n: "Error = Error \<longrightarrow> listeners_of Error ?em0 \<noteq> []"
      by (simp_all add: errors_heard_def)
    from emitter_emit_quiet [OF q n, of "PError (handler_error ev e)"] obtain em1 where
      1: "emitter_emit Error (PError (handler_error ev e)) ?em0 = (None, em1)"
      "same_registrations ?em0 em1" "invoked (trace em1) = invoked (trace ?em0)"
      "fired (trace em1) = fired (trace ?em0) @ [(Error, PError (handler_error ev e))]"
      by blast
    from h0 1(2) have "errors_heard em1" by (rule errors_heard_same)
    from Cons.IH [OF this] obtain em' where
      r: "run_handlers ev hs p em1 = (None, em')" "same_registrations em1 em'"
      "invoked (trace em') = invoked (trace em1) @ map fst hs"
      "fired (trace em') =
         fired (trace em1) @ map (\<lambda>e. (Error, PError (handler_error ev e))) (thrown hs p)"
      by blast
    with h Throws s0 1 assms show ?thesis
      by (simp add: same_registrations_def logged_simps thrown_def thrown_by_def)
  qed
qed

text \<open>
  Where the \<open>error\<close> event has listeners and none of them throws, and no listener of the
  event itself throws, \<open>emit\<close> invokes every handler registered for the event, in order,
  and fires one \<open>error\<close> event for each handler that throws.
\<close>

lemma emit_isolates_handlers:
  assumes "ev \<noteq> Error" and "errors_heard em" and "\<forall>l \<in> set (listeners_of ev em). quiet l"
  shows "invoked (trace (emit ev p em)) =
           invoked (trace em) @ map fst (case handlers em ev of None \<Rightarrow> [] | Some hs \<Rightarrow> hs) \<and>
         fired (trace (emit ev p em)) =
           fired (trace em) @ (ev, p)
             # map (\<lambda>e. (Error, PError (handler_error ev e)))
                 (thrown (case handlers em ev of None \<Rightarrow> [] | Some hs \<Rightarrow> hs) p)"
proof -
  from assms have n: "ev = Error \<longrightarrow> listeners_of ev em \<noteq> []" by simp
  from emitter_emit_quiet [OF assms(3) n, of p] obtain em1 where
    1: "emitter_emit ev p em = (None, em1)" "same_registrations em em1"
    "invoked (trace em1) = invoked (trace em)" "fired (trace em1) = fired (trace em) @ [(ev, p)]"
    by blast
  from assms(2) 1(2) have h1: "errors_heard em1" by (rule errors_heard_same)
  show ?thesis
  proof (cases "handlers em ev")
    case None
    with 1 show ?thesis
      by (simp add: emit_def emit_try_def same_registrations_def thrown_def)
  next
    case (Some hs)
    from run_handlers_isolated [OF assms(1) h1, of hs p] obtain em2 where
      2: "run_handlers ev hs p em1 = (None, em2)"
      "invoked (trace em2) = invoked (trace em1) @ map fst hs"
      "fired (trace em2) =
         fired (trace em1) @ map (\<lambda>e. (Error, PError (handler_error ev e))) (thrown hs p)"
      by blast
    with Some 1 show ?thesis
      by (simp add: emit_def emit_try_def same_registrations_def)
  qed
qed

section \<open>Properties of getSettings\<close>

lemma mutate_array_other:
  "a \<noteq> b \<Longrightarrow> array_at (mutate_array a f st) b = array_at st b"
  by (simp add: mutate_array_def array_at_def)

lemma mutate_array_frame:
  "objects (mutate_array a f st) = objects st \<and> next_ref (mutate_array a f st) = next_ref st"
  by (simp add: mutate_array_def)

lemma mutations_frame:
  "a \<noteq> b \<Longrightarrow>
   array_at (fold (mutate_array a) fs st) b = array_at st b \<and>
   objects (fold (mutate_array a) fs st) = objects st \<and>
   next_ref (fold (mutate_array a) fs st) = next_ref st"
proof (induction fs arbitrary: st)
  case Nil
  then show ?case by simp
next
  case (Cons f fs)
  from Cons.IH [OF Cons.prems, of "mutate_array a f st"] Cons.prems show ?case
    by (simp add: mutate_array_other mutate_array_frame)
qed

lemma read_array_cong:
  "array_at st' b = array_at st a \<Longrightarrow> objects st' = objects st \<Longrightarrow> read_array st' b = read_array st a"
  by (simp add: read_array_def)

lemma getSettings_store_copy:
  "fst (getSettings_store r st) = next_ref st \<and>
   array_at (snd (getSettings_store r st)) (next_ref st) = array_at st r \<and>
   objects (snd (getSettings_store r st)) = objects st \<and>
   (\<forall>b. b \<noteq> next_ref st \<longrightarrow> arrays (snd (getSettings_store r st)) b = arrays st b)"
  by (simp add: getSettings_store_def array_at_def)

text \<open>
  Claim C9. \<open>getSettings\<close> returns the settings and leaves the session as it was. In the
  store its result is a new array with the elements of the session's array; the
  session's array and the setting objects are as before, and after any mutations of the
  returned array a further \<open>getSettings\<close> and \<open>getSetting\<close> return what they returned
  before.
\<close>

theorem getSettings_returns_a_copy:
  assumes "this_settings < next_ref st"
  shows "getSettings s = (settings s, s) \<and>
         fst (getSettings_store this_settings st) \<noteq> this_settings \<and>
         read_array (snd (getSettings_store this_settings st)) (fst (getSettings_store this_settings st)) =
           read_array st this_settings \<and>
         arrays (snd (getSettings_store this_settings st)) this_settings = arrays st this_settings \<and>
         objects (snd (getSettings_store this_settings st)) = objects st \<and>
         read_array (snd (getSettings_store this_settings
             (fold (mutate_array (fst (getSettings_store this_settings st))) fs
                (snd (getSettings_store this_settings st)))))
           (fst (getSettings_store this_settings
             (fold (mutate_array (fst (getSettings_store this_settings st))) fs
                (snd (getSettings_store this_settings st))))) =
           read_array st this_settings \<and>
         getSetting_store k this_settings
             (fold (mutate_array (fst (getSettings_store this_settings st))) fs
                (snd (getSettings_store this_settings st))) =
           getSetting_store k this_settings st"
proof -
  let ?a = "fst (getSettings_store this_settings st)"
  let ?st1 = "snd (getSettings_store this_settings st)"
  let ?st2 = "fold (mutate_array ?a) fs ?st1"
  note c = getSettings_store_copy [of this_settings st]
  from assms c have ne: "?a \<noteq> this_settings" by simp
  from c ne have keep: "arrays ?st1 this_settings = arrays st this_settings" by simp
  then have a1: "array_at ?st1 this_settings = array_at st this_settings" by (simp add: array_at_def)
  from c have o1: "objects ?st1 = objects st" by simp
  from c have r1: "read_array ?st1 ?a = read_array st this_settings"
    by (intro read_array_cong) simp_all
  from mutations_frame [OF ne, of fs ?st1] a1 o1
  have a2: "array_at ?st2 this_settings = array_at st this_settings" and o2: "objects ?st2 = objects st"
    by simp_all
  then have r2: "read_array ?st2 this_settings = read_array st this_settings"
    by (rule read_array_cong)
  from getSettings_store_copy [of this_settings ?st2] a2 o2
  have r3: "read_array (snd (getSettings_store this_settings ?st2)) (fst (getSettings_store this_settings ?st2)) =
          read_array st this_settings"
    by (intro read_array_cong) simp_all
  from r2 have g: "getSetting_store k this_settings ?st2 = getSetting_store k this_settings st"
    by (simp add: getSetting_store_def)
  from ne r1 keep o1 r3 g show ?thesis by (simp add: getSettings_def)
qed

theorem getSettings_returns_a_copy_witness:
  "fst (getSettings_store 0 sample_store) = 2 \<and>
   read_array (snd (getSettings_store 0 sample_store)) 2 = [volume 5] \<and>
   getSetting_store ''vol'' 0
     (fold (mutate_array 2) [\<lambda>xs. [], \<lambda>xs. xs @ [7]] (snd (getSettings_store 0 sample_store))) =
     VNum 5"
proof -
  have n: "(0::nat) < next_ref sample_store" by (simp add: sample_store_def)
  have a: "fst (getSettings_store 0 sample_store) = 2"
    by (simp add: getSettings_store_def sample_store_def)
  have r: "read_array sample_store 0 = [volume 5]"
    by (simp add: read_array_def array_at_def sample_store_def)
  then have g: "getSetting_store ''vol'' 0 sample_store = VNum 5"
    by (simp add: getSetting_store_def volume_def)
  from getSettings_returns_a_copy [OF n, where fs = "[\<lambda>xs. [], \<lambda>xs. xs @ [7]]" and k = "''vol''"]
  show ?thesis unfolding a r g by simp
qed

text \<open>The copy is shallow: an assignment to an element of the returned array is seen by \<open>getSetting\<close>.\<close>

lemma getSettings_shares_the_elements:
  "getSetting_store ''vol'' 0 (mutate_object 1 (VNum 9) (snd (getSettings_store 0 sample_store))) = VNum 9"
  by (simp add: getSetting_store_def read_array_def array_at_def getSettings_store_def mutate_object_def
      sample_store_def volume_def)

end
